theory Spec2Isabelle
  imports Complex_Main "HOL-Library.Word"
begin

section \<open>Text\<close>

text \<open>
  Python text (\<open>str\<close>) is modelled as a HOL \<open>string\<close> whose characters are read as the
  code points 0 to 255. File contents are kept as text: the codec that \<open>open\<close> applies
  is the same on the writing and on the reading side and is left out, while the newline
  translation of text mode, which changes what is read, is written out. The platform is
  POSIX: \<open>os.path\<close> is \<open>posixpath\<close> and \<open>os.linesep\<close> is a single line feed, so writing
  in text mode translates nothing.
\<close>

definition LF :: char where
  "LF = CHR 0x0A"

definition CR :: char where
  "CR = CHR 0x0D"

definition isspace :: "char \<Rightarrow> bool" where
  \<comment> \<open>the characters \<open>str.strip()\<close> removes, among the code points below 256\<close>
  "isspace c =
     (let n = (of_char c :: nat)
      in (9 \<le> n \<and> n \<le> 13) \<or> (28 \<le> n \<and> n \<le> 32) \<or> n = 133 \<or> n = 160)"

definition strip :: "string \<Rightarrow> string" where
  "strip s = rev (dropWhile isspace (rev (dropWhile isspace s)))"

fun split_sep :: "char \<Rightarrow> string \<Rightarrow> string list" where
  \<comment> \<open>\<open>s.split(sep)\<close> for a separator of one character: never an empty list\<close>
  "split_sep sep [] = [[]]"
| "split_sep sep (c # cs) =
     (if c = sep then [] # split_sep sep cs
      else (case split_sep sep cs of
              [] \<Rightarrow> [[c]]
            | p # ps \<Rightarrow> (c # p) # ps))"

definition is_decimal :: "char \<Rightarrow> bool" where
  "is_decimal c = (48 \<le> (of_char c :: nat) \<and> (of_char c :: nat) \<le> 57)"

definition is_digit_char :: "char \<Rightarrow> bool" where
  \<comment> \<open>the characters of \<open>str.isdigit()\<close> below 256: the decimal digits and the
      superscripts two, three and one\<close>
  "is_digit_char c =
     (is_decimal c \<or> (of_char c :: nat) = 178 \<or> (of_char c :: nat) = 179
        \<or> (of_char c :: nat) = 185)"

definition isdigit :: "string \<Rightarrow> bool" where
  "isdigit s = (s \<noteq> [] \<and> list_all is_digit_char s)"

datatype error =
    FileExistsError
  | FileNotFoundError
  | PermissionError
  | RuntimeError
  | IndexError
  | ValueError
  | OverflowError
  | EncodeError
  | BlockError

definition digit_val :: "char \<Rightarrow> nat" where
  "digit_val c = (of_char c :: nat) - 48"

definition py_int :: "string \<Rightarrow> error + nat" where
  \<comment> \<open>\<open>int(s)\<close> on a string that passed \<open>isdigit\<close>: a superscript digit is no decimal,
      and the interpreter refuses more than 4300 digits (the default of
      \<open>sys.int_max_str_digits\<close>); integers are unbounded otherwise\<close>
  "py_int s =
     (if s \<noteq> [] \<and> list_all is_decimal s \<and> length s \<le> 4300
      then Inr (foldl (\<lambda>n c. 10 * n + digit_val c) 0 s)
      else Inl ValueError)"

fun py_str :: "nat \<Rightarrow> string" where
  \<comment> \<open>\<open>str(n)\<close> of a non-negative integer\<close>
  "py_str n =
     (if n < 10 then [char_of (48 + n)]
      else py_str (n div 10) @ [char_of (48 + n mod 10)])"

declare py_str.simps [simp del]

fun universal_newlines :: "string \<Rightarrow> string" where
  \<comment> \<open>reading in text mode with \<open>newline=None\<close>: CR LF and a lone CR become LF\<close>
  "universal_newlines [] = []"
| "universal_newlines [c] = (if c = CR then [LF] else [c])"
| "universal_newlines (c # d # cs) =
     (if c = CR then
        (if d = LF then LF # universal_newlines cs
         else LF # universal_newlines (d # cs))
      else c # universal_newlines (d # cs))"

section \<open>Constants and path utilities\<close>

type_synonym path = string

definition LOCK_SUFFIX :: string where
  "LOCK_SUFFIX = ''.lock''"

definition TMP_PREFIX :: string where
  "TMP_PREFIX = ''.__tmp-''"

definition TMP_SUFFIX :: string where
  "TMP_SUFFIX = ''.tmp''"

definition DEFAULT_RETRIES :: int where
  "DEFAULT_RETRIES = 5"

definition DEFAULT_DELAY :: real where
  "DEFAULT_DELAY = 1 / 10"

definition LOCK_SEPARATOR :: char where
  "LOCK_SEPARATOR = CHR ''|''"

definition SLASH :: char where
  "SLASH = CHR ''/''"

definition get_lock_path :: "path \<Rightarrow> path" where
  "get_lock_path p = p @ LOCK_SUFFIX"

definition basename :: "path \<Rightarrow> string" where
  \<comment> \<open>\<open>posixpath.basename\<close>: what follows the last slash\<close>
  "basename p = rev (takeWhile (\<lambda>c. c \<noteq> SLASH) (rev p))"

definition dirname :: "path \<Rightarrow> string" where
  \<comment> \<open>\<open>posixpath.dirname\<close>: up to the last slash, trailing slashes removed unless the
      head is made of slashes only\<close>
  "dirname p =
     (let head = rev (dropWhile (\<lambda>c. c \<noteq> SLASH) (rev p))
      in if head \<noteq> [] \<and> \<not> list_all (\<lambda>c. c = SLASH) head
         then rev (dropWhile (\<lambda>c. c = SLASH) (rev head))
         else head)"

definition path_join :: "string \<Rightarrow> string \<Rightarrow> path" where
  \<comment> \<open>\<open>posixpath.join\<close> of two components\<close>
  "path_join a b =
     (if b \<noteq> [] \<and> hd b = SLASH then b
      else if a = [] \<or> last a = SLASH then a @ b
      else a @ [SLASH] @ b)"

definition hex_char :: "nat \<Rightarrow> char" where
  "hex_char d = (if d < 10 then char_of (48 + d) else char_of (87 + d))"

definition hex8 :: "32 word \<Rightarrow> string" where
  \<comment> \<open>\<open>uuid.uuid4().hex[:8]\<close>: the first 32 random bits as eight lower-case hex digits\<close>
  "hex8 t = map (\<lambda>i. hex_char ((unat t div 16 ^ i) mod 16)) [7, 6, 5, 4, 3, 2, 1, 0]"

definition tmp_name :: "32 word \<Rightarrow> path \<Rightarrow> string" where
  \<comment> \<open>the file name \<open>f"{TMP_PREFIX}{rand}.{base}{TMP_SUFFIX}"\<close>\<close>
  "tmp_name t p = TMP_PREFIX @ hex8 t @ ''.'' @ basename p @ TMP_SUFFIX"

definition get_tmp_path :: "32 word \<Rightarrow> path \<Rightarrow> path" where
  \<comment> \<open>the random token of \<open>uuid4\<close> is an argument\<close>
  "get_tmp_path t p = path_join (dirname p) (tmp_name t p)"

section \<open>Lock record codec\<close>

definition lock_render :: "nat \<Rightarrow> string option \<Rightarrow> string \<Rightarrow> string" where
  "lock_render pid_v session_hash_v timestamp_v =
     py_str pid_v @ [LOCK_SEPARATOR]
       @ (case session_hash_v of None \<Rightarrow> [] | Some h \<Rightarrow> if h = [] then [] else h)
       @ [LOCK_SEPARATOR] @ timestamp_v"

record lock_data =
  d_pid :: "nat option"
  d_session_hash :: "string option"
  d_timestamp :: "string option"

definition lock_parse :: "string \<Rightarrow> error + lock_data" where
  \<comment> \<open>the dictionary is built field by field: \<open>int\<close> may raise ValueError, then
      \<open>parts[1]\<close> raises IndexError when there is no separator\<close>
  "lock_parse c =
     (case split_sep LOCK_SEPARATOR (strip c) of
        [] \<Rightarrow> Inl IndexError
      | p0 # rest \<Rightarrow>
          (case (if isdigit p0 then map_sum id Some (py_int p0) else Inr None) of
             Inl e \<Rightarrow> Inl e
           | Inr pid_v \<Rightarrow>
               (case rest of
                  [] \<Rightarrow> Inl IndexError
                | p1 # rest2 \<Rightarrow>
                    Inr \<lparr> d_pid = pid_v,
                          d_session_hash = (if p1 = [] then None else Some p1),
                          d_timestamp = (case rest2 of [] \<Rightarrow> None | p2 # _ \<Rightarrow> Some p2) \<rparr>)))"

section \<open>The filesystem and the environment\<close>

text \<open>
  A file has its content, the metadata that \<open>shutil.copystat\<close> transfers (mode and
  timestamps, kept abstract) and the change time that \<open>os.path.getctime\<close> reads.
  The change time is set when a file is created, renamed or given new metadata; the
  only change time the code reads is the one of a lock file, which is written once, when
  it is created. Paths are canonical names of regular files: there are no directories
  and no links.

  The world holds what the code reaches outside itself: the files, the wall clock
  \<open>time.time()\<close> (exact numbers stand for the floats), the table of live process ids
  behind \<open>psutil.pid_exists\<close>, the caller's process id, the text that
  \<open>datetime.now(timezone.utc).isoformat()\<close> returns, the hex digest of
  \<open>hashlib.sha256\<close>, and the paths on which setting metadata is refused.
  The code runs alone, with one exception that the source handles itself: between the
  existence test of the lock file and its exclusive creation a rival process may create
  it. \<open>racers\<close> is the schedule of these races, one entry consumed by each exclusive
  creation: \<open>Some f\<close> when a rival has just put the file \<open>f\<close> there. \<open>trace\<close> records the
  effects of the calls in order.
\<close>

record inode =
  content :: string
  meta :: nat
  ctime :: real

datatype event =
    Slept real
  | Created path
  | Removed path
  | Replaced path path
  | Opened path
  | Printed

record world =
  files :: "path \<rightharpoonup> inode"
  now :: real
  live :: "nat set"
  self_pid :: "31 word"
  utc_iso :: string
  sha256_hex :: "string \<Rightarrow> string"
  stat_denied :: "path set"
  fresh_meta :: nat
  racers :: "inode option list"
  trace :: "event list"

fun makes_file :: "event \<Rightarrow> bool" where
  \<comment> \<open>the effects that put a file at a path\<close>
  "makes_file (Created q) = True"
| "makes_file (Opened q) = True"
| "makes_file (Replaced q r) = True"
| "makes_file e = False"

definition emit :: "event \<Rightarrow> world \<Rightarrow> world" where
  "emit e w = w\<lparr>trace := trace w @ [e]\<rparr>"

definition os_path_exists :: "path \<Rightarrow> world \<Rightarrow> bool" where
  "os_path_exists p w = (files w p \<noteq> None)"

definition os_remove :: "path \<Rightarrow> world \<Rightarrow> error + world" where
  "os_remove p w =
     (if os_path_exists p w
      then Inr (emit (Removed p) (w\<lparr>files := (files w)(p := None)\<rparr>))
      else Inl FileNotFoundError)"

definition os_replace :: "path \<Rightarrow> path \<Rightarrow> world \<Rightarrow> error + world" where
  \<comment> \<open>\<open>rename(2)\<close>: the source must exist; onto itself it does nothing\<close>
  "os_replace src dst w =
     (case files w src of
        None \<Rightarrow> Inl FileNotFoundError
      | Some f \<Rightarrow>
          if src = dst then Inr (emit (Replaced src dst) w)
          else Inr (emit (Replaced src dst)
                 (w\<lparr>files := (files w)(dst \<mapsto> f\<lparr>ctime := now w\<rparr>, src := None)\<rparr>)))"

definition shutil_copystat :: "path \<Rightarrow> path \<Rightarrow> world \<Rightarrow> error + world" where
  "shutil_copystat src dst w =
     (case files w src of
        None \<Rightarrow> Inl FileNotFoundError
      | Some f \<Rightarrow>
          (case files w dst of
             None \<Rightarrow> Inl FileNotFoundError
           | Some g \<Rightarrow>
               if dst \<in> stat_denied w then Inl PermissionError
               else Inr (w\<lparr>files := (files w)(dst \<mapsto> g\<lparr>meta := meta f, ctime := now w\<rparr>)\<rparr>)))"

definition copystat_best_effort :: "path \<Rightarrow> path \<Rightarrow> world \<Rightarrow> world" where
  \<comment> \<open>\<open>try: shutil.copystat(src, dst) except Exception as e: print(...)\<close>\<close>
  "copystat_best_effort src dst w =
     (case shutil_copystat src dst w of
        Inl e \<Rightarrow> emit Printed w
      | Inr w1 \<Rightarrow> w1)"

definition os_getpid :: "world \<Rightarrow> nat" where
  \<comment> \<open>a process id is a \<open>pid_t\<close>: a non-negative signed integer of 32 bits\<close>
  "os_getpid w = unat (self_pid w)"

definition sleep_ns :: "real \<Rightarrow> int" where
  \<comment> \<open>the length of a sleep in nanoseconds, rounded away from zero\<close>
  "sleep_ns d = (if 0 \<le> d then \<lceil>d * 1000000000\<rceil> else \<lfloor>d * 1000000000\<rfloor>)"

definition can_sleep :: "real \<Rightarrow> bool" where
  \<comment> \<open>the lengths that \<open>time.sleep\<close> accepts\<close>
  "can_sleep d = (0 \<le> d \<and> sleep_ns d < 2 ^ 63)"

definition time_sleep :: "real \<Rightarrow> world \<Rightarrow> error + world" where
  \<comment> \<open>\<open>time.sleep\<close> converts the length to a 64-bit count of nanoseconds, which raises
      OverflowError when it does not fit, and then refuses a negative length\<close>
  "time_sleep d w =
     (if \<not> (- (2 ^ 63) \<le> sleep_ns d \<and> sleep_ns d < 2 ^ 63) then Inl OverflowError
      else if d < 0 then Inl ValueError
      else Inr (emit (Slept d) (w\<lparr>now := now w + d\<rparr>)))"

definition new_file :: "string \<Rightarrow> world \<Rightarrow> inode" where
  "new_file c w = \<lparr> content = c, meta = fresh_meta w, ctime = now w \<rparr>"

definition after_race :: "path \<Rightarrow> world \<Rightarrow> world" where
  \<comment> \<open>the next entry of the schedule of races is consumed: a rival may have created
      the file at the path\<close>
  "after_race p w =
     (case racers w of
        [] \<Rightarrow> w
      | None # rs \<Rightarrow> w\<lparr>racers := rs\<rparr>
      | Some f # rs \<Rightarrow> w\<lparr>files := (files w)(p \<mapsto> f), racers := rs\<rparr>)"

definition os_open_excl_write :: "path \<Rightarrow> string \<Rightarrow> world \<Rightarrow> (error + unit) \<times> world" where
  \<comment> \<open>\<open>os.open(p, O_CREAT | O_EXCL | O_WRONLY)\<close>, then the text written through
      \<open>os.fdopen\<close>; a rival scheduled for this creation acts first\<close>
  "os_open_excl_write p c w =
     (let w1 = after_race p w
      in if os_path_exists p w1 then (Inl FileExistsError, w1)
         else (Inr (), emit (Created p) (w1\<lparr>files := (files w1)(p \<mapsto> new_file c w1)\<rparr>)))"

datatype handle = Devnull | Writing path | Reading path

definition open_write :: "path \<Rightarrow> world \<Rightarrow> handle \<times> world" where
  \<comment> \<open>\<open>open(p, "w")\<close> and \<open>open(p, "wb")\<close>: the file is created, or truncated keeping its
      metadata\<close>
  "open_write p w =
     (Writing p,
      emit (Opened p)
        (w\<lparr>files := (files w)(p \<mapsto>
             (case files w p of
                None \<Rightarrow> new_file [] w
              | Some f \<Rightarrow> f\<lparr>content := []\<rparr>))\<rparr>))"

definition open_read :: "path \<Rightarrow> world \<Rightarrow> error + handle" where
  "open_read p w = (if os_path_exists p w then Inr (Reading p) else Inl FileNotFoundError)"

definition stream_write :: "handle \<Rightarrow> string \<Rightarrow> world \<Rightarrow> world" where
  \<comment> \<open>\<open>f.write(s)\<close>: the null device drops the text, a file receives it (the buffer is
      flushed at the latest by \<open>close\<close>, before anything reads the file)\<close>
  "stream_write h s w =
     (case h of
        Writing p \<Rightarrow>
          (case files w p of
             None \<Rightarrow> w
           | Some f \<Rightarrow> w\<lparr>files := (files w)(p \<mapsto> f\<lparr>content := content f @ s\<rparr>)\<rparr>)
      | _ \<Rightarrow> w)"

definition read_text :: "handle \<Rightarrow> world \<Rightarrow> string" where
  \<comment> \<open>\<open>f.read()\<close> of a file opened in text mode\<close>
  "read_text h w =
     (case h of
        Reading p \<Rightarrow> (case files w p of None \<Rightarrow> [] | Some f \<Rightarrow> universal_newlines (content f))
      | _ \<Rightarrow> [])"

definition read_bytes :: "handle \<Rightarrow> world \<Rightarrow> string" where
  \<comment> \<open>\<open>f.read()\<close> of a file opened in binary mode\<close>
  "read_bytes h w =
     (case h of
        Reading p \<Rightarrow> (case files w p of None \<Rightarrow> [] | Some f \<Rightarrow> content f)
      | _ \<Rightarrow> [])"

section \<open>Move primitive\<close>

definition move_atomic_impl :: "path \<Rightarrow> path \<Rightarrow> bool \<Rightarrow> world \<Rightarrow> (error + unit) \<times> world" where
  \<comment> \<open>\<open>_move_atomic\<close>\<close>
  "move_atomic_impl src dst force_v w =
     (if os_path_exists dst w \<and> \<not> force_v then (Inl FileExistsError, w)
      else
        (let w1 = (if os_path_exists dst w then copystat_best_effort dst src w else w)
         in case os_replace src dst w1 of
              Inl e \<Rightarrow> (Inl e, w1)
            | Inr w2 \<Rightarrow> (Inr (), w2)))"

definition move_atomic :: "path \<Rightarrow> path \<Rightarrow> bool \<Rightarrow> world \<Rightarrow> (error + unit) \<times> world" where
  "move_atomic src dst force_v w = move_atomic_impl src dst force_v w"

definition move_atomic_force :: "path \<Rightarrow> path \<Rightarrow> world \<Rightarrow> (error + unit) \<times> world" where
  "move_atomic_force src dst w = move_atomic_impl src dst True w"

section \<open>Lock manager\<close>

definition session_to_hash :: "world \<Rightarrow> string option \<Rightarrow> string option" where
  \<comment> \<open>\<open>hashlib.sha256(session.encode()).hexdigest()[:8] if session else None\<close>: the
      empty label is falsy\<close>
  "session_to_hash w s =
     (case s of
        None \<Rightarrow> None
      | Some l \<Rightarrow> if l = [] then None else Some (take 8 (sha256_hex w l)))"

definition is_process_alive :: "nat \<Rightarrow> world \<Rightarrow> error + bool" where
  \<comment> \<open>\<open>psutil.pid_exists\<close> probes the process with \<open>os.kill(pid, 0)\<close>, which raises
      OverflowError for a number that is no \<open>pid_t\<close>\<close>
  "is_process_alive n w = (if n < 2 ^ 31 then Inr (n \<in> live w) else Inl OverflowError)"

definition is_locked :: "path \<Rightarrow> world \<Rightarrow> bool" where
  "is_locked p w = os_path_exists (get_lock_path p) w"

definition get_lock_age :: "path \<Rightarrow> world \<Rightarrow> real" where
  "get_lock_age p w =
     (case files w (get_lock_path p) of
        None \<Rightarrow> 0
      | Some f \<Rightarrow> now w - ctime f)"

definition is_stale_lock :: "path \<Rightarrow> real \<Rightarrow> world \<Rightarrow> bool" where
  "is_stale_lock p max_age_s w = (if is_locked p w then get_lock_age p w > max_age_s else False)"

definition force_release_lock :: "path \<Rightarrow> world \<Rightarrow> error + world" where
  "force_release_lock p w =
     (let lp = get_lock_path p
      in if os_path_exists lp w then os_remove lp w else Inr w)"

definition release_stale_lock :: "path \<Rightarrow> real \<Rightarrow> world \<Rightarrow> error + world" where
  "release_stale_lock p max_age_s w =
     (if is_stale_lock p max_age_s w then force_release_lock p w else Inr w)"

definition release_lock :: "path \<Rightarrow> world \<Rightarrow> error + world" where
  "release_lock p w = force_release_lock p w"

record LockInfo =
  lock_path :: path
  lock_exists :: bool
  pid :: "nat option"
  alive :: bool
  session_hash :: "string option"
  timestamp :: "string option"
  corrupt :: bool

definition inspect_lock :: "path \<Rightarrow> world \<Rightarrow> LockInfo" where
  \<comment> \<open>any exception of the reading, of the parsing and of the liveness lookup is caught
      and gives the corrupt answer; a process id of zero is falsy and is not looked up\<close>
  "inspect_lock p w =
     (let lp = get_lock_path p
      in case files w lp of
           None \<Rightarrow> \<lparr> lock_path = lp, lock_exists = False, pid = None, alive = False,
                      session_hash = None, timestamp = None, corrupt = False \<rparr>
         | Some f \<Rightarrow>
             (case lock_parse (universal_newlines (content f)) of
                Inl e \<Rightarrow> \<lparr> lock_path = lp, lock_exists = True, pid = None, alive = False,
                           session_hash = None, timestamp = None, corrupt = True \<rparr>
              | Inr d \<Rightarrow>
                  (case (case d_pid d of
                           None \<Rightarrow> Inr False
                         | Some n \<Rightarrow> if n = 0 then Inr False else is_process_alive n w) of
                     Inl e \<Rightarrow> \<lparr> lock_path = lp, lock_exists = True, pid = None,
                                alive = False, session_hash = None, timestamp = None,
                                corrupt = True \<rparr>
                   | Inr a \<Rightarrow> \<lparr> lock_path = lp, lock_exists = True, pid = d_pid d,
                                alive = a, session_hash = d_session_hash d,
                                timestamp = d_timestamp d, corrupt = False \<rparr>)))"

datatype step = Return bool | Continue | Raise error

definition sleep_step :: "real \<Rightarrow> world \<Rightarrow> step \<times> world" where
  \<comment> \<open>the \<open>time.sleep(delay)\<close> that ends an iteration\<close>
  "sleep_step d w =
     (case time_sleep d w of
        Inl e \<Rightarrow> (Raise e, w)
      | Inr w1 \<Rightarrow> (Continue, w1))"

definition acquire_attempt ::
  "path \<Rightarrow> real \<Rightarrow> string option \<Rightarrow> string \<Rightarrow> bool \<Rightarrow> world \<Rightarrow> step \<times> world" where
  \<comment> \<open>one iteration of the loop of \<open>try_acquire_lock\<close>\<close>
  "acquire_attempt p d sh ts force_v w =
     (let lp = get_lock_path p
      in if \<not> os_path_exists lp w then
           (case os_open_excl_write lp (lock_render (os_getpid w) sh ts) w of
              (Inr u, w1) \<Rightarrow> (Return True, w1)
            | (Inl e, w1) \<Rightarrow>
                if e = FileExistsError then sleep_step d w1 else (Raise e, w1))
         else
           (let info = inspect_lock p w
            in if \<not> alive info \<or> force_v then
                 (case force_release_lock p w of
                    Inl e \<Rightarrow> (Raise e, w)
                  | Inr w1 \<Rightarrow> (Continue, w1))
               else sleep_step d w))"

fun acquire_loop ::
  "nat \<Rightarrow> path \<Rightarrow> real \<Rightarrow> string option \<Rightarrow> string \<Rightarrow> bool \<Rightarrow> world
     \<Rightarrow> (error + bool) \<times> world" where
  \<comment> \<open>\<open>for _ in range(retries): ...\<close> followed by \<open>return False\<close>\<close>
  "acquire_loop 0 p d sh ts force_v w = (Inr False, w)"
| "acquire_loop (Suc n) p d sh ts force_v w =
     (case acquire_attempt p d sh ts force_v w of
        (Return b, w1) \<Rightarrow> (Inr b, w1)
      | (Raise e, w1) \<Rightarrow> (Inl e, w1)
      | (Continue, w1) \<Rightarrow> acquire_loop n p d sh ts force_v w1)"

definition try_acquire_lock ::
  "path \<Rightarrow> int \<Rightarrow> real \<Rightarrow> string option \<Rightarrow> bool \<Rightarrow> world \<Rightarrow> (error + bool) \<times> world" where
  \<comment> \<open>the fingerprint and the timestamp are computed once, before the loop;
      \<open>range\<close> of a negative count is empty\<close>
  "try_acquire_lock p retries_v d s force_v w =
     acquire_loop (nat retries_v) p d (session_to_hash w s) (utc_iso w) force_v w"

section \<open>Read and write sessions\<close>

record AtomicReader =
  r_path :: path
  r_retries :: int
  r_delay :: real
  require_lock :: bool
  r_file :: "handle option"

definition AtomicReader_init :: "path \<Rightarrow> int \<Rightarrow> real \<Rightarrow> bool \<Rightarrow> AtomicReader" where
  "AtomicReader_init p retries_v d req =
     \<lparr> r_path = p, r_retries = retries_v, r_delay = d, require_lock = req, r_file = None \<rparr>"

fun reader_loop :: "nat \<Rightarrow> path \<Rightarrow> real \<Rightarrow> bool \<Rightarrow> world \<Rightarrow> (error + handle) \<times> world" where
  \<comment> \<open>the loop of \<open>AtomicReader.__enter__\<close>, and the RuntimeError after it\<close>
  "reader_loop 0 p d req w = (Inl RuntimeError, w)"
| "reader_loop (Suc n) p d req w =
     (if \<not> req \<or> \<not> is_locked p w then
        (case open_read p w of
           Inr h \<Rightarrow> (Inr h, w)
         | Inl e \<Rightarrow>
             if e = FileNotFoundError then
               (case time_sleep d w of
                  Inl e2 \<Rightarrow> (Inl e2, w)
                | Inr w1 \<Rightarrow> reader_loop n p d req w1)
             else (Inl e, w))
      else
        (case time_sleep d w of
           Inl e2 \<Rightarrow> (Inl e2, w)
         | Inr w1 \<Rightarrow> reader_loop n p d req w1))"

definition AtomicReader_enter :: "AtomicReader \<Rightarrow> world \<Rightarrow> (error + AtomicReader) \<times> world" where
  "AtomicReader_enter self w =
     (case reader_loop (nat (r_retries self)) (r_path self) (r_delay self) (require_lock self) w of
        (Inl e, w1) \<Rightarrow> (Inl e, w1)
      | (Inr h, w1) \<Rightarrow> (Inr (self\<lparr>r_file := Some h\<rparr>), w1))"

record AtomicWriter =
  path :: path
  tmpfile :: path
  retries :: int
  delay :: real
  simulate :: bool
  session :: "string option"
  force :: bool
  w_file :: "handle option"

definition AtomicWriter_init ::
  "32 word \<Rightarrow> path \<Rightarrow> int \<Rightarrow> real \<Rightarrow> bool \<Rightarrow> string option \<Rightarrow> bool \<Rightarrow> AtomicWriter" where
  \<comment> \<open>the first argument is the random token of the temporary name\<close>
  "AtomicWriter_init t p retries_v d sim s force_v =
     \<lparr> path = p, tmpfile = get_tmp_path t p, retries = retries_v, delay = d, simulate = sim,
       session = s, force = force_v, w_file = None \<rparr>"

definition AtomicWriter_enter :: "AtomicWriter \<Rightarrow> world \<Rightarrow> (error + AtomicWriter) \<times> world" where
  "AtomicWriter_enter self w =
     (if simulate self then (Inr (self\<lparr>w_file := Some Devnull\<rparr>), w)
      else
        (case try_acquire_lock (path self) (retries self) (delay self) (session self)
                (force self) w of
           (Inl e, w1) \<Rightarrow> (Inl e, w1)
         | (Inr ok, w1) \<Rightarrow>
             if \<not> ok then (Inl RuntimeError, w1)
             else (case open_write (tmpfile self) w1 of
                     (h, w2) \<Rightarrow> (Inr (self\<lparr>w_file := Some h\<rparr>), w2))))"

definition AtomicWriter_exit :: "AtomicWriter \<Rightarrow> world \<Rightarrow> (error + unit) \<times> world" where
  \<comment> \<open>the exception state handed to \<open>__exit__\<close> is not an argument: the source never
      looks at it. The \<open>try\<close> part comes first, the \<open>finally\<close> part runs whatever the
      first did, and an exception of the \<open>try\<close> part leaves once \<open>finally\<close> is through.\<close>
  "AtomicWriter_exit self w =
     (case (if \<not> simulate self then
              (let w0 = (if os_path_exists (path self) w
                         then copystat_best_effort (path self) (tmpfile self) w else w)
               in case os_replace (tmpfile self) (path self) w0 of
                    Inl e \<Rightarrow> (Inl e, w0)
                  | Inr w1 \<Rightarrow> (Inr (), w1))
            else (Inr (), w)) of
        (r, w1) \<Rightarrow>
          if \<not> simulate self then
            (case force_release_lock (path self) w1 of
               Inl e \<Rightarrow> (Inl e, w1)
             | Inr w2 \<Rightarrow>
                 if os_path_exists (tmpfile self) w2 then
                   (case os_remove (tmpfile self) w2 of
                      Inl e \<Rightarrow> (Inl e, w2)
                    | Inr w3 \<Rightarrow> (r, w3))
                 else (r, w2))
          else (r, w1))"

text \<open>
  What the caller does inside \<open>with ... as f\<close>: it writes some chunks to the stream, then
  the block ends, normally or by an exception.
\<close>

datatype block = Block "string list" "error option"

fun run_block :: "handle \<Rightarrow> block \<Rightarrow> world \<Rightarrow> error option \<times> world" where
  "run_block h (Block chunks exc) w = (exc, foldl (\<lambda>v s. stream_write h s v) w chunks)"

definition with_AtomicWriter :: "AtomicWriter \<Rightarrow> block \<Rightarrow> world \<Rightarrow> (error + unit) \<times> world" where
  \<comment> \<open>the \<open>with\<close> statement: an exception of \<open>__enter__\<close> skips \<open>__exit__\<close>; \<open>__exit__\<close>
      returns nothing, so an exception of the block goes on to the caller\<close>
  "with_AtomicWriter self blk w =
     (case AtomicWriter_enter self w of
        (Inl e, w1) \<Rightarrow> (Inl e, w1)
      | (Inr self1, w1) \<Rightarrow>
          (case run_block (case w_file self1 of None \<Rightarrow> Devnull | Some h \<Rightarrow> h) blk w1 of
             (exc, w2) \<Rightarrow>
               (case AtomicWriter_exit self1 w2 of
                  (Inl e, w3) \<Rightarrow> (Inl e, w3)
                | (Inr u, w3) \<Rightarrow>
                    (case exc of
                       Some e \<Rightarrow> (Inl e, w3)
                     | None \<Rightarrow> (Inr (), w3)))))"

section \<open>File operations\<close>

definition write_atomic ::
  "32 word \<Rightarrow> path \<Rightarrow> string \<Rightarrow> int \<Rightarrow> real \<Rightarrow> bool \<Rightarrow> string option \<Rightarrow> bool \<Rightarrow> world
     \<Rightarrow> (error + unit) \<times> world" where
  "write_atomic t p data retries_v d sim s force_v w =
     with_AtomicWriter (AtomicWriter_init t p retries_v d sim s force_v) (Block [data] None) w"

definition read_atomic ::
  "path \<Rightarrow> int \<Rightarrow> real \<Rightarrow> bool \<Rightarrow> world \<Rightarrow> (error + string) \<times> world" where
  "read_atomic p retries_v d req w =
     (case AtomicReader_enter (AtomicReader_init p retries_v d req) w of
        (Inl e, w1) \<Rightarrow> (Inl e, w1)
      | (Inr self1, w1) \<Rightarrow>
          (Inr (read_text (case r_file self1 of None \<Rightarrow> Devnull | Some h \<Rightarrow> h) w1), w1))"

text \<open>
  The format wrappers. The serialisers of the libraries (\<open>yaml.safe_dump\<close>, \<open>json.dumps\<close>,
  \<open>pickle.dump\<close>, their loaders, and ruamel's \<open>dump\<close> onto a stream) are arguments.
\<close>

definition atomic_yaml_dump ::
  "('a \<Rightarrow> error + string) \<Rightarrow> 32 word \<Rightarrow> path \<Rightarrow> 'a \<Rightarrow> world \<Rightarrow> (error + unit) \<times> world" where
  "atomic_yaml_dump safe_dump t p obj w =
     (case safe_dump obj of
        Inl e \<Rightarrow> (Inl e, w)
      | Inr text \<Rightarrow>
          write_atomic t p text DEFAULT_RETRIES DEFAULT_DELAY False None False w)"

definition atomic_yaml_load ::
  "(string \<Rightarrow> error + 'a) \<Rightarrow> path \<Rightarrow> world \<Rightarrow> (error + 'a) \<times> world" where
  "atomic_yaml_load safe_load p w =
     (case read_atomic p DEFAULT_RETRIES DEFAULT_DELAY False w of
        (Inl e, w1) \<Rightarrow> (Inl e, w1)
      | (Inr text, w1) \<Rightarrow> (safe_load text, w1))"

definition atomic_pickle_write ::
  "('a \<Rightarrow> error + string) \<Rightarrow> 32 word \<Rightarrow> path \<Rightarrow> 'a \<Rightarrow> world \<Rightarrow> (error + unit) \<times> world" where
  \<comment> \<open>its own temporary file and rename; no lock is taken or looked at\<close>
  "atomic_pickle_write pickle_dumps t p data w =
     (let tmp_path = get_tmp_path t p
      in case open_write tmp_path w of
           (h, w1) \<Rightarrow>
             (case pickle_dumps data of
                Inl e \<Rightarrow> (Inl e, w1)
              | Inr bytes \<Rightarrow>
                  (let w2 = stream_write h bytes w1;
                       w3 = (if os_path_exists p w2 then copystat_best_effort p tmp_path w2
                             else w2)
                   in case os_replace tmp_path p w3 of
                        Inl e \<Rightarrow> (Inl e, w3)
                      | Inr w4 \<Rightarrow> (Inr (), w4))))"

definition atomic_pickle_read ::
  "(string \<Rightarrow> error + 'a) \<Rightarrow> path \<Rightarrow> world \<Rightarrow> error + 'a" where
  "atomic_pickle_read pickle_loads p w =
     (case open_read p w of
        Inl e \<Rightarrow> Inl e
      | Inr h \<Rightarrow> pickle_loads (read_bytes h w))"

definition atomic_json_dump ::
  "('a \<Rightarrow> error + string) \<Rightarrow> 32 word \<Rightarrow> path \<Rightarrow> 'a \<Rightarrow> world \<Rightarrow> (error + unit) \<times> world" where
  "atomic_json_dump json_dumps t p obj w =
     (case json_dumps obj of
        Inl e \<Rightarrow> (Inl e, w)
      | Inr text \<Rightarrow>
          write_atomic t p text DEFAULT_RETRIES DEFAULT_DELAY False None False w)"

definition atomic_json_load ::
  "(string \<Rightarrow> error + 'a) \<Rightarrow> path \<Rightarrow> world \<Rightarrow> (error + 'a) \<times> world" where
  "atomic_json_load json_loads p w =
     (case read_atomic p DEFAULT_RETRIES DEFAULT_DELAY False w of
        (Inl e, w1) \<Rightarrow> (Inl e, w1)
      | (Inr text, w1) \<Rightarrow> (json_loads text, w1))"

definition atomic_yaml_dump_ruamel ::
  "('a \<Rightarrow> block) \<Rightarrow> 32 word \<Rightarrow> path \<Rightarrow> 'a \<Rightarrow> world \<Rightarrow> (error + unit) \<times> world" where
  "atomic_yaml_dump_ruamel dump_to t p data w =
     with_AtomicWriter
       (AtomicWriter_init t p DEFAULT_RETRIES DEFAULT_DELAY False None False) (dump_to data) w"

definition atomic_yaml_load_ruamel ::
  "(string \<Rightarrow> error + 'a) \<Rightarrow> path \<Rightarrow> world \<Rightarrow> (error + 'a) \<times> world" where
  "atomic_yaml_load_ruamel yload p w =
     (case read_atomic p DEFAULT_RETRIES DEFAULT_DELAY False w of
        (Inl e, w1) \<Rightarrow> (Inl e, w1)
      | (Inr text, w1) \<Rightarrow> (yload text, w1))"

section \<open>Example worlds\<close>

text \<open>
  Concrete worlds on which the theorems below are run: process 7 is alive, the caller is
  process 42, nothing is scheduled to race, and a fixed text stands for the digest.
\<close>

definition example_world :: "(path \<rightharpoonup> inode) \<Rightarrow> world" where
  "example_world fs =
     \<lparr> files = fs, now = 100, live = {7}, self_pid = 42,
       utc_iso = ''2024-01-01T00:00:00+00:00'',
       sha256_hex = (\<lambda>s. ''0123456789abcdef''),
       stat_denied = {}, fresh_meta = 420, racers = [], trace = [] \<rparr>"

definition example_file :: "string \<Rightarrow> inode" where
  "example_file c = \<lparr> content = c, meta = 384, ctime = 10 \<rparr>"

definition free_world :: world where
  \<comment> \<open>the target \<open>f\<close> holds \<open>old\<close> and is not locked\<close>
  "free_world = example_world [''f'' \<mapsto> example_file ''old'']"

definition held_world :: world where
  \<comment> \<open>the target \<open>f\<close> is locked by the live process 7\<close>
  "held_world =
     example_world [''f'' \<mapsto> example_file ''old'',
                    ''f.lock'' \<mapsto> example_file ''7|0a1b2c3d|T0'']"

definition dead_world :: world where
  \<comment> \<open>the target \<open>f\<close> is locked by process 9, which is gone\<close>
  "dead_world =
     example_world [''f'' \<mapsto> example_file ''old'',
                    ''f.lock'' \<mapsto> example_file ''9||T0'']"

definition garbled_world :: world where
  \<comment> \<open>the lock file of \<open>f\<close> has a first field that is no number\<close>
  "garbled_world = example_world [''f.lock'' \<mapsto> example_file ''abc|deadbeef|T0'']"

section \<open>Notions of the specification\<close>

definition lock_fields :: "string \<Rightarrow> string list" where
  \<comment> \<open>the fields of a lock file's content as \<open>inspect_lock\<close> reads them: text mode, stripped,
      cut at the separator; the first one is the owner id field\<close>
  "lock_fields c = split_sep LOCK_SEPARATOR (strip (universal_newlines c))"

definition owner_field :: "string \<Rightarrow> string" where
  "owner_field c = (case lock_fields c of [] \<Rightarrow> [] | p0 # _ \<Rightarrow> p0)"

definition parseable_int :: "string \<Rightarrow> bool" where
  \<comment> \<open>a non-empty run of decimal digits\<close>
  "parseable_int s = (s \<noteq> [] \<and> list_all is_decimal s)"

section \<open>Lemmas on text\<close>

lemma split_sep_nonempty: "split_sep sep s \<noteq> []"
  by (induction s) (auto split: list.splits)

lemma split_sep_prefix:
  "sep \<notin> set a \<Longrightarrow> split_sep sep (a @ sep # r) = a # split_sep sep r"
  by (induction a) (auto split: list.splits)

lemma universal_newlines_Cons:
  "c \<noteq> CR \<Longrightarrow> universal_newlines (c # b) = c # universal_newlines b"
  by (cases b) auto

lemma universal_newlines_prefix:
  "CR \<notin> set a \<Longrightarrow> universal_newlines (a @ b) = a @ universal_newlines b"
  by (induction a) (auto simp: universal_newlines_Cons)

lemma universal_newlines_id: "CR \<notin> set c \<Longrightarrow> universal_newlines c = c"
  using universal_newlines_prefix [of c "[]"] by simp

lemma strip_keeps:
  assumes "a \<noteq> []" "\<not> isspace (hd a)" "\<not> isspace c"
  shows "strip (a @ c # r) = a @ c # rev (dropWhile isspace (rev r))"
proof -
  have "dropWhile isspace (a @ c # r) = a @ c # r"
    using assms by (cases a) auto
  moreover have "rev (dropWhile isspace (rev r @ c # rev a)) = a @ c # rev (dropWhile isspace (rev r))"
    using assms(3) by (auto simp: dropWhile_append)
  ultimately show ?thesis by (simp add: strip_def)
qed

lemma of_char_digit: "d < 10 \<Longrightarrow> (of_char (char_of (48 + d) :: char) :: nat) = 48 + d"
  by simp

lemma py_str_decimal: "list_all is_decimal (py_str n)"
proof (induction n rule: py_str.induct)
  case (1 n)
  show ?case
  proof (cases "n < 10")
    case True
    then show ?thesis by (subst py_str.simps) (simp add: is_decimal_def)
  next
    case False
    have "n mod 10 < 10" by simp
    then have "is_decimal (char_of (48 + n mod 10))"
      using of_char_digit [of "n mod 10"] by (simp add: is_decimal_def)
    with False 1 show ?thesis by (subst py_str.simps) simp
  qed
qed

lemma py_str_nonempty: "py_str n \<noteq> []"
  by (subst py_str.simps) simp

lemma py_int_py_str_val: "foldl (\<lambda>n c. 10 * n + digit_val c) 0 (py_str n) = n"
proof (induction n rule: py_str.induct)
  case (1 n)
  show ?case
  proof (cases "n < 10")
    case True
    then show ?thesis by (subst py_str.simps) (simp add: digit_val_def)
  next
    case False
    have "n mod 10 < 10" by simp
    then have "digit_val (char_of (48 + n mod 10)) = n mod 10"
      using of_char_digit [of "n mod 10"] by (simp add: digit_val_def)
    with False 1 show ?thesis by (subst py_str.simps) simp
  qed
qed

lemma length_py_str: "0 < k \<Longrightarrow> n < 10 ^ k \<Longrightarrow> length (py_str n) \<le> k"
proof (induction k arbitrary: n)
  case 0
  then show ?case by simp
next
  case (Suc k)
  show ?case
  proof (cases "n < 10")
    case True
    then show ?thesis by (subst py_str.simps) simp
  next
    case False
    with Suc.prems have k: "0 < k" by (cases k) auto
    from Suc.prems have "n div 10 < 10 ^ k"
      by (simp add: less_mult_imp_div_less mult.commute)
    from Suc.IH [OF k this] False show ?thesis by (subst py_str.simps) simp
  qed
qed

lemma length_py_str_pid: "n < 2 ^ 31 \<Longrightarrow> length (py_str n) \<le> 4300"
proof -
  assume "n < 2 ^ 31"
  then have "n < 10 ^ 10" by simp
  then have "length (py_str n) \<le> 10" by (intro length_py_str) simp_all
  then show ?thesis by simp
qed

lemma py_int_py_str: "n < 2 ^ 31 \<Longrightarrow> py_int (py_str n) = Inr n"
  by (simp add: py_int_def py_str_decimal py_str_nonempty py_int_py_str_val length_py_str_pid)

lemma is_decimal_digit_char: "is_decimal c \<Longrightarrow> is_digit_char c"
  by (simp add: is_digit_char_def)

lemma isdigit_py_str: "isdigit (py_str n)"
  using py_str_decimal [of n] py_str_nonempty [of n]
  by (auto simp: isdigit_def list_all_iff is_decimal_digit_char)

lemma decimal_not_sep: "is_decimal c \<Longrightarrow> c \<noteq> LOCK_SEPARATOR \<and> c \<noteq> CR \<and> \<not> isspace c"
  by (auto simp: is_decimal_def LOCK_SEPARATOR_def CR_def isspace_def Let_def)

lemma py_str_chars:
  "LOCK_SEPARATOR \<notin> set (py_str n)" "CR \<notin> set (py_str n)" "\<not> isspace (hd (py_str n))"
  using py_str_decimal [of n] py_str_nonempty [of n] decimal_not_sep
  by (auto simp: list_all_iff)

section \<open>Lemmas on paths\<close>

lemma takeWhile_neq_append:
  "c \<notin> set xs \<Longrightarrow> takeWhile (\<lambda>x. x \<noteq> c) (xs @ ys) = xs @ takeWhile (\<lambda>x. x \<noteq> c) ys"
  by (induction xs) auto

lemma basename_no_slash: "SLASH \<notin> set (basename p)"
proof -
  have "SLASH \<notin> set (takeWhile (\<lambda>c. c \<noteq> SLASH) (rev p))"
    by (auto dest: set_takeWhileD)
  then show ?thesis by (simp add: basename_def)
qed

lemma basename_append:
  "SLASH \<notin> set y \<Longrightarrow> basename (x @ y) = basename x @ y"
  by (simp add: basename_def takeWhile_neq_append)

lemma basename_after_slash:
  assumes "SLASH \<notin> set b" "a = [] \<or> last a = SLASH"
  shows "basename (a @ b) = b"
proof -
  have "takeWhile (\<lambda>c. c \<noteq> SLASH) (rev a) = []"
    using assms(2) by (cases a rule: rev_cases) auto
  with assms(1) show ?thesis by (simp add: basename_def takeWhile_neq_append)
qed

lemma hex_char_no_slash: "SLASH \<noteq> hex_char (n mod 16)"
proof -
  have "n mod 16 < 16" by simp
  then have "(of_char (hex_char (n mod 16)) :: nat) \<noteq> 47"
    by (auto simp: hex_char_def)
  moreover have "(of_char SLASH :: nat) = 47" by (simp add: SLASH_def)
  ultimately show ?thesis by metis
qed

lemma hex8_no_slash: "SLASH \<notin> set (hex8 t)"
  by (simp add: hex8_def hex_char_no_slash)

lemma length_hex8: "length (hex8 t) = 8"
  by (simp add: hex8_def)

lemma tmp_name_no_slash: "SLASH \<notin> set (tmp_name t p)"
  using hex8_no_slash [of t] basename_no_slash [of p]
  by (auto simp: tmp_name_def TMP_PREFIX_def TMP_SUFFIX_def SLASH_def)

lemma length_tmp_name: "length (tmp_name t p) = length (basename p) + 20"
  by (simp add: tmp_name_def TMP_PREFIX_def TMP_SUFFIX_def length_hex8)

lemma basename_get_tmp_path: "basename (get_tmp_path t p) = tmp_name t p"
proof -
  have hd: "tmp_name t p \<noteq> [] \<and> hd (tmp_name t p) \<noteq> SLASH"
    by (simp add: tmp_name_def TMP_PREFIX_def SLASH_def)
  have "get_tmp_path t p = path_join (dirname p) (tmp_name t p)"
    by (simp add: get_tmp_path_def)
  also have "basename \<dots> = tmp_name t p"
  proof (cases "dirname p = [] \<or> last (dirname p) = SLASH")
    case True
    then have "path_join (dirname p) (tmp_name t p) = dirname p @ tmp_name t p"
      using hd by (simp add: path_join_def)
    then show ?thesis
      using basename_after_slash [OF tmp_name_no_slash True] by simp
  next
    case False
    then have "path_join (dirname p) (tmp_name t p) = (dirname p @ [SLASH]) @ tmp_name t p"
      using hd by (simp add: path_join_def)
    then show ?thesis
      using basename_after_slash [OF tmp_name_no_slash, of "dirname p @ [SLASH]"] by simp
  qed
  finally show ?thesis .
qed

lemma basename_get_lock_path: "basename (get_lock_path p) = basename p @ LOCK_SUFFIX"
  unfolding get_lock_path_def
  by (rule basename_append) (simp add: LOCK_SUFFIX_def SLASH_def)

lemma tmp_path_neq_path: "get_tmp_path t p \<noteq> p"
proof
  assume "get_tmp_path t p = p"
  then have "length (basename (get_tmp_path t p)) = length (basename p)" by simp
  then show False by (simp add: basename_get_tmp_path length_tmp_name)
qed

lemma tmp_path_neq_own_lock_path: "get_tmp_path t p \<noteq> get_lock_path p"
proof
  assume "get_tmp_path t p = get_lock_path p"
  then have "length (basename (get_tmp_path t p)) = length (basename (get_lock_path p))" by simp
  then show False
    by (simp add: basename_get_tmp_path length_tmp_name basename_get_lock_path LOCK_SUFFIX_def)
qed

lemma lock_path_neq_path: "get_lock_path p \<noteq> p"
  by (simp add: get_lock_path_def LOCK_SUFFIX_def)

section \<open>Stale locks\<close>

text \<open>
  C9. \<open>release_stale_lock\<close> deletes the lock file exactly when it exists and its age
  (the clock minus its change time) exceeds the threshold, and never fails; otherwise the
  world is left as it is. The table of live processes plays no part: with any other table
  the outcome is the same.
\<close>

theorem release_stale_lock_exact:
  "release_stale_lock p max_age_s w =
     (case files w (get_lock_path p) of
        None \<Rightarrow> Inr w
      | Some f \<Rightarrow>
          if now w - ctime f > max_age_s
          then Inr (emit (Removed (get_lock_path p))
                     (w\<lparr>files := (files w)(get_lock_path p := None)\<rparr>))
          else Inr w)
   \<and> release_stale_lock p max_age_s (w\<lparr>live := l\<rparr>)
       = map_sum id (\<lambda>v. v\<lparr>live := l\<rparr>) (release_stale_lock p max_age_s w)"
  by (simp add: release_stale_lock_def is_stale_lock_def is_locked_def get_lock_age_def
      force_release_lock_def os_remove_def os_path_exists_def emit_def Let_def
      split: option.splits)

section \<open>Moving onto an existing destination\<close>

text \<open>
  C8. Let \<open>src\<close> and \<open>dst\<close> be two different existing files. Without \<open>force\<close> the move
  fails with the destination-exists error and the world is unchanged. With \<open>force\<close> it
  succeeds: the metadata of \<open>dst\<close> is first copied onto \<open>src\<close> (when that is refused, a
  message is printed and the move goes on), then \<open>src\<close> replaces \<open>dst\<close>; afterwards \<open>dst\<close>
  holds the former content of \<open>src\<close>, \<open>src\<close> is gone, and no other file has changed.
\<close>

theorem move_atomic_dst_exists:
  assumes "files w src = Some f" and "files w dst = Some g" and "src \<noteq> dst"
  shows "move_atomic src dst False w = (Inl FileExistsError, w)
    \<and> (\<exists>w'. move_atomic src dst True w = (Inr (), w')
          \<and> files w' dst
              = Some \<lparr> content = content f,
                       meta = (if src \<in> stat_denied w then meta f else meta g),
                       ctime = now w \<rparr>
          \<and> files w' src = None
          \<and> (\<forall>q. q \<noteq> src \<and> q \<noteq> dst \<longrightarrow> files w' q = files w q)
          \<and> trace w' = trace w @ (if src \<in> stat_denied w then [Printed] else [])
                          @ [Replaced src dst])"
  using assms
  by (simp add: move_atomic_def move_atomic_impl_def os_path_exists_def
      copystat_best_effort_def shutil_copystat_def os_replace_def emit_def)



theorem move_atomic_dst_exists_witness:
  "files (example_world [''a'' \<mapsto> example_file ''new'', ''b'' \<mapsto> example_file ''old'']) ''a''
     = Some (example_file ''new'')
   \<and> files (example_world [''a'' \<mapsto> example_file ''new'', ''b'' \<mapsto> example_file ''old'']) ''b''
     = Some (example_file ''old'')
   \<and> ''a'' \<noteq> ''b''
   \<and> fst (move_atomic ''a'' ''b'' False
        (example_world [''a'' \<mapsto> example_file ''new'', ''b'' \<mapsto> example_file ''old'']))
     = Inl FileExistsError
   \<and> fst (move_atomic ''a'' ''b'' True
        (example_world [''a'' \<mapsto> example_file ''new'', ''b'' \<mapsto> example_file ''old'']))
     = Inr ()
   \<and> map_option content (files (snd (move_atomic ''a'' ''b'' True
        (example_world [''a'' \<mapsto> example_file ''new'', ''b'' \<mapsto> example_file ''old'']))) ''b'')
     = Some ''new''
   \<and> files (snd (move_atomic ''a'' ''b'' True
        (example_world [''a'' \<mapsto> example_file ''new'', ''b'' \<mapsto> example_file ''old'']))) ''a''
     = None"
proof -
  let ?W = "example_world [''a'' \<mapsto> example_file ''new'', ''b'' \<mapsto> example_file ''old'']"
  have a: "files ?W ''a'' = Some (example_file ''new'')"
    by (simp add: example_world_def)
  have b: "files ?W ''b'' = Some (example_file ''old'')"
    by (simp add: example_world_def)
  have ne: "''a'' \<noteq> ''b''"
    by simp
  from move_atomic_dst_exists [OF a b ne] obtain w' where
    no: "move_atomic ''a'' ''b'' False ?W = (Inl FileExistsError, ?W)" and
    yes: "move_atomic ''a'' ''b'' True ?W = (Inr (), w')" and
    dst: "files w' ''b''
      = Some \<lparr> content = content (example_file ''new''),
               meta = (if ''a'' \<in> stat_denied ?W then meta (example_file ''new'')
                       else meta (example_file ''old'')),
               ctime = now ?W \<rparr>" and
    src: "files w' ''a'' = None"
    by blast
  have c: "content (example_file ''new'') = ''new''"
    by (simp add: example_file_def)
  show ?thesis
    using a b ne by (simp only: no yes dst src fst_conv snd_conv option.map inode.simps c)
      simp
qed

section \<open>Lock inspection\<close>

lemma inspect_lock_missing:
  "files w (get_lock_path p) = None \<Longrightarrow>
   inspect_lock p w = \<lparr> lock_path = get_lock_path p, lock_exists = False, pid = None,
     alive = False, session_hash = None, timestamp = None, corrupt = False \<rparr>"
  by (simp add: inspect_lock_def)

lemma lock_parse_render_no_session:
  assumes "n < 2 ^ 31"
  shows "\<exists>t. lock_parse (universal_newlines (lock_render n None ts))
     = Inr \<lparr> d_pid = Some n, d_session_hash = None, d_timestamp = t \<rparr>"
proof -
  define r where "r = rev (dropWhile isspace (rev (universal_newlines ts)))"
  have sepc: "LOCK_SEPARATOR \<noteq> CR" "\<not> isspace LOCK_SEPARATOR"
    by (simp_all add: LOCK_SEPARATOR_def CR_def isspace_def)
  have "CR \<notin> set (py_str n @ [LOCK_SEPARATOR, LOCK_SEPARATOR])"
    using py_str_chars(2) [of n] sepc by auto
  then have "universal_newlines ((py_str n @ [LOCK_SEPARATOR, LOCK_SEPARATOR]) @ ts)
      = (py_str n @ [LOCK_SEPARATOR, LOCK_SEPARATOR]) @ universal_newlines ts"
    by (rule universal_newlines_prefix)
  then have u: "universal_newlines (lock_render n None ts)
      = (py_str n @ [LOCK_SEPARATOR]) @ LOCK_SEPARATOR # universal_newlines ts"
    by (simp add: lock_render_def)
  have "strip ((py_str n @ [LOCK_SEPARATOR]) @ LOCK_SEPARATOR # universal_newlines ts)
      = (py_str n @ [LOCK_SEPARATOR]) @ LOCK_SEPARATOR # r"
    unfolding r_def
    by (rule strip_keeps) (use py_str_nonempty [of n] py_str_chars(3) [of n] sepc in auto)
  then have s: "strip (universal_newlines (lock_render n None ts))
      = py_str n @ LOCK_SEPARATOR # (LOCK_SEPARATOR # r)"
    by (simp add: u)
  have "split_sep LOCK_SEPARATOR (py_str n @ LOCK_SEPARATOR # (LOCK_SEPARATOR # r))
      = py_str n # split_sep LOCK_SEPARATOR (LOCK_SEPARATOR # r)"
    by (rule split_sep_prefix) (rule py_str_chars(1))
  then have p: "split_sep LOCK_SEPARATOR (strip (universal_newlines (lock_render n None ts)))
      = py_str n # [] # split_sep LOCK_SEPARATOR r"
    by (simp add: s)
  show ?thesis
    by (simp add: lock_parse_def p isdigit_py_str py_int_py_str [OF assms])
qed


section \<open>Lemmas on the acquire loop\<close>

lemma sleep_ns_nonneg: "0 \<le> d \<Longrightarrow> 0 \<le> sleep_ns d"
  by (simp add: sleep_ns_def)

lemma time_sleep_cases:
  "time_sleep d w =
     (if can_sleep d then Inr (w\<lparr>now := now w + d, trace := trace w @ [Slept d]\<rparr>)
      else Inl (if - (2 ^ 63) \<le> sleep_ns d \<and> sleep_ns d < 2 ^ 63 then ValueError
                else OverflowError))"
  using sleep_ns_nonneg [of d]
  by (auto simp: time_sleep_def can_sleep_def emit_def)

lemma sleep_step_cases:
  "sleep_step d w =
     (if can_sleep d then (Continue, w\<lparr>now := now w + d, trace := trace w @ [Slept d]\<rparr>)
      else (Raise (if - (2 ^ 63) \<le> sleep_ns d \<and> sleep_ns d < 2 ^ 63 then ValueError
                   else OverflowError), w))"
  by (simp add: sleep_step_def time_sleep_cases)

lemma force_release_lock_cases:
  "force_release_lock p w =
     (if files w (get_lock_path p) = None then Inr w
      else Inr (w\<lparr>files := (files w)(get_lock_path p := None),
                  trace := trace w @ [Removed (get_lock_path p)]\<rparr>))"
  by (simp add: force_release_lock_def os_remove_def os_path_exists_def emit_def Let_def)

lemma os_open_excl_write_cases:
  "os_open_excl_write lp c w =
     (if files (after_race lp w) lp \<noteq> None then (Inl FileExistsError, after_race lp w)
      else (Inr (),
            (after_race lp w)\<lparr>files := (files (after_race lp w))(lp \<mapsto> new_file c (after_race lp w)),
                               trace := trace (after_race lp w) @ [Created lp]\<rparr>))"
  by (simp add: os_open_excl_write_def os_path_exists_def emit_def Let_def)

lemma after_race_frame:
  "q \<noteq> lp \<Longrightarrow> files (after_race lp w) q = files w q"
  "self_pid (after_race lp w) = self_pid w"
  "live (after_race lp w) = live w"
  "now (after_race lp w) = now w"
  "trace (after_race lp w) = trace w"
  "utc_iso (after_race lp w) = utc_iso w"
  "fresh_meta (after_race lp w) = fresh_meta w"
  by (simp_all add: after_race_def split: list.splits option.splits)

lemma acquire_attempt_cases:
  "acquire_attempt p d sh ts force_v w =
     (if files w (get_lock_path p) = None then
        (if files (after_race (get_lock_path p) w) (get_lock_path p) \<noteq> None
         then sleep_step d (after_race (get_lock_path p) w)
         else (Return True,
               (after_race (get_lock_path p) w)
                 \<lparr>files := (files (after_race (get_lock_path p) w))
                     (get_lock_path p \<mapsto>
                        new_file (lock_render (os_getpid w) sh ts) (after_race (get_lock_path p) w)),
                  trace := trace w @ [Created (get_lock_path p)]\<rparr>))
      else if \<not> alive (inspect_lock p w) \<or> force_v then
        (Continue, w\<lparr>files := (files w)(get_lock_path p := None),
                      trace := trace w @ [Removed (get_lock_path p)]\<rparr>)
      else sleep_step d w)"
  by (simp add: acquire_attempt_def os_open_excl_write_cases force_release_lock_cases
      os_path_exists_def after_race_frame Let_def)

section \<open>Frame and outcome of the acquire loop\<close>

lemma after_race_frame2:
  "sha256_hex (after_race lp w) = sha256_hex w"
  "stat_denied (after_race lp w) = stat_denied w"
  by (simp_all add: after_race_def split: list.splits option.splits)

lemma acquire_attempt_frame:
  "q \<noteq> get_lock_path p \<Longrightarrow> files (snd (acquire_attempt p d sh ts force_v w)) q = files w q"
  "self_pid (snd (acquire_attempt p d sh ts force_v w)) = self_pid w"
  "live (snd (acquire_attempt p d sh ts force_v w)) = live w"
  "utc_iso (snd (acquire_attempt p d sh ts force_v w)) = utc_iso w"
  "sha256_hex (snd (acquire_attempt p d sh ts force_v w)) = sha256_hex w"
  by (simp_all add: acquire_attempt_cases sleep_step_cases after_race_frame after_race_frame2)


lemma acquire_attempt_now:
  "now (snd (acquire_attempt p d sh ts force_v w)) =
     now w +
       (if files w (get_lock_path p) = None then
          (if files (after_race (get_lock_path p) w) (get_lock_path p) \<noteq> None
           then (if can_sleep d then d else 0)
           else 0)
        else if \<not> alive (inspect_lock p w) \<or> force_v then 0
        else (if can_sleep d then d else 0))"
  by (simp add: acquire_attempt_cases sleep_step_cases after_race_frame)

lemma acquire_attempt_Return:
  assumes "acquire_attempt p d sh ts force_v w = (Return b, w1)"
  shows "b \<and> files w (get_lock_path p) = None
    \<and> files w1 (get_lock_path p)
        = Some (new_file (lock_render (os_getpid w) sh ts) (after_race (get_lock_path p) w))
    \<and> trace w1 = trace w @ [Created (get_lock_path p)] \<and> now w1 = now w"
  using assms
  by (auto simp: acquire_attempt_cases sleep_step_cases after_race_frame split: if_splits)

lemma acquire_attempt_Continue:
  assumes "acquire_attempt p d sh ts force_v w = (Continue, w1)"
  shows "trace w1 = trace w @ [Slept d] \<or> trace w1 = trace w @ [Removed (get_lock_path p)]"
  using assms
  by (auto simp: acquire_attempt_cases sleep_step_cases after_race_frame split: if_splits)


lemma acquire_loop_frame:
  assumes "acquire_loop n p d sh ts force_v w = (r, w')"
  shows "(\<forall>q. q \<noteq> get_lock_path p \<longrightarrow> files w' q = files w q)
    \<and> self_pid w' = self_pid w \<and> live w' = live w \<and> utc_iso w' = utc_iso w
    \<and> sha256_hex w' = sha256_hex w"
  using assms
proof (induction n arbitrary: w)
  case 0
  then show ?case by simp
next
  case (Suc n)
  obtain st w1 where a: "acquire_attempt p d sh ts force_v w = (st, w1)"
    by (cases "acquire_attempt p d sh ts force_v w")
  have fr: "(\<forall>q. q \<noteq> get_lock_path p \<longrightarrow> files w1 q = files w q)
    \<and> self_pid w1 = self_pid w \<and> live w1 = live w \<and> utc_iso w1 = utc_iso w
    \<and> sha256_hex w1 = sha256_hex w"
    using a acquire_attempt_frame(1) [of _ p d sh ts force_v w]
      acquire_attempt_frame(2-5) [of p d sh ts force_v w] by simp
  show ?case
  proof (cases st)
    case (Return b)
    with Suc.prems a have "w' = w1" by simp
    with fr show ?thesis by simp
  next
    case Continue
    with Suc.prems a have "acquire_loop n p d sh ts force_v w1 = (r, w')" by simp
    from Suc.IH [OF this] fr show ?thesis by simp
  next
    case (Raise e)
    with Suc.prems a have "w' = w1" by simp
    with fr show ?thesis by simp
  qed
qed

lemma acquire_loop_True:
  assumes "acquire_loop n p d sh ts force_v w = (Inr True, w')"
  shows "\<exists>f. files w' (get_lock_path p) = Some f
    \<and> content f = lock_render (os_getpid w) sh ts"
  using assms
proof (induction n arbitrary: w)
  case 0
  then show ?case by simp
next
  case (Suc n)
  obtain st w1 where a: "acquire_attempt p d sh ts force_v w = (st, w1)"
    by (cases "acquire_attempt p d sh ts force_v w")
  show ?case
  proof (cases st)
    case (Return b)
    with Suc.prems a have "w' = w1" by simp
    with acquire_attempt_Return [of p d sh ts force_v w b w1] a Return
    show ?thesis by (simp add: new_file_def)
  next
    case Continue
    with Suc.prems a have l: "acquire_loop n p d sh ts force_v w1 = (Inr True, w')" by simp
    have "os_getpid w1 = os_getpid w"
      using acquire_attempt_frame(2) [of p d sh ts force_v w] a by (simp add: os_getpid_def)
    with Suc.IH [OF l] show ?thesis by simp
  next
    case (Raise e)
    with Suc.prems a show ?thesis by simp
  qed
qed

lemma acquire_loop_False:
  assumes "acquire_loop n p d sh ts force_v w = (Inr False, w')"
  shows "\<exists>evs. trace w' = trace w @ evs \<and> \<not> list_ex makes_file evs"
  using assms
proof (induction n arbitrary: w)
  case 0
  then show ?case by simp
next
  case (Suc n)
  obtain st w1 where a: "acquire_attempt p d sh ts force_v w = (st, w1)"
    by (cases "acquire_attempt p d sh ts force_v w")
  show ?case
  proof (cases st)
    case (Return b)
    with Suc.prems a acquire_attempt_Return [of p d sh ts force_v w b w1]
    show ?thesis by simp
  next
    case Continue
    with Suc.prems a have l: "acquire_loop n p d sh ts force_v w1 = (Inr False, w')" by simp
    from Suc.IH [OF l] obtain evs where
      e: "trace w' = trace w1 @ evs" "\<not> list_ex makes_file evs" by blast
    from a Continue acquire_attempt_Continue [of p d sh ts force_v w w1]
    obtain ev where "trace w1 = trace w @ [ev]" "\<not> makes_file ev" by auto
    with e have "trace w' = trace w @ (ev # evs) \<and> \<not> list_ex makes_file (ev # evs)"
      by simp
    then show ?thesis by blast
  next
    case (Raise e)
    with Suc.prems a show ?thesis by simp
  qed
qed


lemma inspect_lock_now_trace:
  "inspect_lock p (w\<lparr>now := a, trace := b\<rparr>) = inspect_lock p w"
  by (simp add: inspect_lock_def is_process_alive_def Let_def
      split: option.splits sum.splits if_splits)

lemma acquire_loop_held:
  assumes "files w (get_lock_path p) \<noteq> None" and "alive (inspect_lock p w)"
    and "\<not> force_v" and "can_sleep d"
  shows "acquire_loop n p d sh ts force_v w
    = (Inr False, w\<lparr>now := now w + real n * d, trace := trace w @ replicate n (Slept d)\<rparr>)"
  using assms(1,2)
proof (induction n arbitrary: w)
  case 0
  show ?case by simp
next
  case (Suc n)
  let ?w1 = "w\<lparr>now := now w + d, trace := trace w @ [Slept d]\<rparr>"
  have a: "acquire_attempt p d sh ts force_v w = (Continue, ?w1)"
    using Suc.prems assms(3,4) by (auto simp: acquire_attempt_cases sleep_step_cases)
  have "acquire_loop n p d sh ts force_v ?w1
    = (Inr False, ?w1\<lparr>now := now ?w1 + real n * d, trace := trace ?w1 @ replicate n (Slept d)\<rparr>)"
    using Suc.prems by (intro Suc.IH) (simp_all add: inspect_lock_now_trace)
  with a show ?case by (simp add: algebra_simps replicate_append_same)
qed

section \<open>Facts on the example worlds\<close>

lemma example_lock_path: "get_lock_path ''f'' = ''f.lock''"
  by (simp add: get_lock_path_def LOCK_SUFFIX_def)

lemma strip_id:
  assumes "s \<noteq> []" "\<not> isspace (hd s)" "\<not> isspace (last s)"
  shows "strip s = s"
proof -
  have "dropWhile isspace s = s"
    using assms(1,2) by (cases s) auto
  moreover have "dropWhile isspace (rev s) = rev s"
    using assms(1,3) by (cases s rule: rev_cases) auto
  ultimately show ?thesis by (simp add: strip_def)
qed

lemma strip_example1: "strip ''7|0a1b2c3d|T0'' = ''7|0a1b2c3d|T0''"
  by (rule strip_id) (simp_all add: isspace_def)


lemma un_example1: "universal_newlines ''7|0a1b2c3d|T0'' = ''7|0a1b2c3d|T0''"
  by (rule universal_newlines_id) (simp add: CR_def)



lemma split_example1: "split_sep LOCK_SEPARATOR ''7|0a1b2c3d|T0'' = [''7'', ''0a1b2c3d'', ''T0'']"
  by (simp add: LOCK_SEPARATOR_def)


lemma isdigit_example: "isdigit ''7''" "isdigit ''9''" "\<not> isdigit ''abc''"
  by (simp_all add: isdigit_def is_digit_char_def is_decimal_def)

lemma py_int_example: "py_int ''7'' = Inr 7" "py_int ''9'' = Inr 9"
  by (simp_all add: py_int_def is_decimal_def digit_val_def)

lemma parse_example1:
  "lock_parse ''7|0a1b2c3d|T0''
     = Inr \<lparr> d_pid = Some 7, d_session_hash = Some ''0a1b2c3d'',
             d_timestamp = Some ''T0'' \<rparr>"
  by (simp add: lock_parse_def strip_example1 split_example1 isdigit_example py_int_example
      del: split_sep.simps)


lemma inspect_held_world:
  "inspect_lock ''f'' held_world
     = \<lparr> lock_path = ''f.lock'', lock_exists = True, pid = Some 7, alive = True,
         session_hash = Some ''0a1b2c3d'', timestamp = Some ''T0'',
         corrupt = False \<rparr>"
  by (simp add: inspect_lock_def example_lock_path held_world_def example_world_def
      example_file_def un_example1 parse_example1 is_process_alive_def
      del: universal_newlines.simps)


lemma files_example_worlds:
  "files free_world ''f.lock'' = None"
  "files free_world ''f'' = Some (example_file ''old'')"
  "files held_world ''f.lock'' = Some (example_file ''7|0a1b2c3d|T0'')"
  "files held_world ''f'' = Some (example_file ''old'')"
  "files dead_world ''f.lock'' = Some (example_file ''9||T0'')"
  "files dead_world ''f'' = Some (example_file ''old'')"
  by (simp_all add: free_world_def held_world_def dead_world_def example_world_def)

lemma racers_example_worlds:
  "after_race q free_world = free_world"
  "after_race q held_world = held_world"
  "after_race q dead_world = dead_world"
  by (simp_all add: after_race_def free_world_def held_world_def dead_world_def example_world_def)

section \<open>The acquire loop\<close>

lemma after_race_lost_or_same:
  "files (after_race lp w) lp = None \<Longrightarrow> files (after_race lp w) = files w"
  by (auto simp: after_race_def split: list.splits option.splits)


lemma os_getpid_bound: "os_getpid w < 2 ^ 31"
  using unsigned_less [of "self_pid w", where ?'a = nat] by (simp add: os_getpid_def)


lemma acquire_loop_create:
  assumes "files w (get_lock_path p) = None"
    and "files (after_race (get_lock_path p) w) (get_lock_path p) = None"
  shows "acquire_loop (Suc n) p d sh ts force_v w
    = (Inr True,
       (after_race (get_lock_path p) w)
         \<lparr>files := (files w)(get_lock_path p \<mapsto>
             \<lparr> content = lock_render (os_getpid w) sh ts, meta = fresh_meta w, ctime = now w \<rparr>),
          trace := trace w @ [Created (get_lock_path p)]\<rparr>)"
  using assms after_race_lost_or_same [OF assms(2)]
  by (simp add: acquire_attempt_cases new_file_def after_race_frame)






lemma can_sleep_examples: "can_sleep (1 / 10)" "can_sleep DEFAULT_DELAY"
  by (simp_all add: can_sleep_def sleep_ns_def DEFAULT_DELAY_def)


lemma os_getpid_example_worlds:
  "os_getpid free_world = 42" "os_getpid dead_world = 42" "os_getpid held_world = 42"
  by (simp_all add: os_getpid_def free_world_def dead_world_def held_world_def example_world_def)



section \<open>The empty session label\<close>

lemma inspect_lock_rendered_no_session:
  assumes "files w (get_lock_path p) = Some f" and "content f = lock_render n None ts"
    and "n < 2 ^ 31"
  shows "session_hash (inspect_lock p w) = None \<and> pid (inspect_lock p w) = Some n
    \<and> \<not> corrupt (inspect_lock p w)"
proof -
  from lock_parse_render_no_session [OF assms(3), of ts] obtain t where
    "lock_parse (universal_newlines (lock_render n None ts))
      = Inr \<lparr> d_pid = Some n, d_session_hash = None, d_timestamp = t \<rparr>"
    by blast
  with assms show ?thesis by (simp add: inspect_lock_def is_process_alive_def)
qed

text \<open>
  C10. The empty session label is treated as no label: the fingerprint helper returns
  nothing for it, acquiring with the empty label is the same computation as acquiring
  without a label, and when that acquisition succeeds the lock file holds the record with
  an empty fingerprint field, for which an inspection reports no fingerprint (and the
  caller's process id, not corrupt).
\<close>

theorem empty_session_is_no_session:
  "session_to_hash w (Some []) = None
   \<and> try_acquire_lock p r d (Some []) force_v w = try_acquire_lock p r d None force_v w
   \<and> (try_acquire_lock p r d (Some []) force_v w = (Inr True, w') \<longrightarrow>
        (\<exists>f. files w' (get_lock_path p) = Some f
           \<and> content f
               = py_str (os_getpid w) @ [LOCK_SEPARATOR, LOCK_SEPARATOR] @ utc_iso w)
        \<and> session_hash (inspect_lock p w') = None
        \<and> pid (inspect_lock p w') = Some (os_getpid w)
        \<and> \<not> corrupt (inspect_lock p w'))"
proof (intro conjI impI)
  show h: "session_to_hash w (Some []) = None"
    by (simp add: session_to_hash_def)
  show "try_acquire_lock p r d (Some []) force_v w = try_acquire_lock p r d None force_v w"
    by (simp add: try_acquire_lock_def session_to_hash_def)
  assume "try_acquire_lock p r d (Some []) force_v w = (Inr True, w')"
  then have "acquire_loop (nat r) p d None (utc_iso w) force_v w = (Inr True, w')"
    by (simp add: try_acquire_lock_def h)
  from acquire_loop_True [OF this] obtain f where
    f: "files w' (get_lock_path p) = Some f"
       "content f = lock_render (os_getpid w) None (utc_iso w)"
    by blast
  then show "\<exists>f. files w' (get_lock_path p) = Some f
      \<and> content f = py_str (os_getpid w) @ [LOCK_SEPARATOR, LOCK_SEPARATOR] @ utc_iso w"
    by (simp add: lock_render_def)
  from inspect_lock_rendered_no_session [OF f os_getpid_bound]
  show "session_hash (inspect_lock p w') = None"
    and "pid (inspect_lock p w') = Some (os_getpid w)"
    and "\<not> corrupt (inspect_lock p w')"
    by simp_all
qed

lemma try_acquire_free_world:
  "fst (try_acquire_lock ''f'' 5 (1 / 10) s False free_world) = Inr True"
proof -
  have "nat (5::int) = Suc 4" by simp
  moreover have "fst (acquire_loop (Suc 4) ''f'' (1 / 10) (session_to_hash free_world s)
      (utc_iso free_world) False free_world) = Inr True"
    by (subst acquire_loop_create)
      (simp_all add: example_lock_path files_example_worlds racers_example_worlds)
  ultimately show ?thesis by (simp only: try_acquire_lock_def)
qed

theorem empty_session_is_no_session_witness:
  "fst (try_acquire_lock ''f'' 5 (1 / 10) (Some []) False free_world) = Inr True
   \<and> session_hash (inspect_lock ''f''
        (snd (try_acquire_lock ''f'' 5 (1 / 10) (Some []) False free_world))) = None
   \<and> pid (inspect_lock ''f''
        (snd (try_acquire_lock ''f'' 5 (1 / 10) (Some []) False free_world))) = Some 42"
proof -
  let ?r = "try_acquire_lock ''f'' 5 (1 / 10) (Some []) False free_world"
  have ok: "fst ?r = Inr True"
    by (rule try_acquire_free_world)
  then have eq: "?r = (Inr True, snd ?r)"
    by (metis prod.collapse)
  have me: "os_getpid free_world = 42"
    by (rule os_getpid_example_worlds)
  from empty_session_is_no_session
    [of free_world "''f''" 5 "1 / 10" False "snd ?r"] eq
  have "session_hash (inspect_lock ''f'' (snd ?r)) = None
    \<and> pid (inspect_lock ''f'' (snd ?r)) = Some (os_getpid free_world)"
    by blast
  with ok show ?thesis by (simp only: me simp_thms)
qed

section \<open>Inspection of a malformed lock\<close>

lemma py_int_parseable: "\<not> parseable_int s \<Longrightarrow> py_int s = Inl ValueError"
  by (auto simp: py_int_def parseable_int_def)

lemma lock_parse_not_parseable:
  assumes "\<not> parseable_int (owner_field c)"
  shows "lock_parse (universal_newlines c) =
    (if isdigit (owner_field c) then Inl ValueError
     else case lock_fields c of
            p0 # p1 # rest \<Rightarrow>
              Inr \<lparr> d_pid = None,
                    d_session_hash = (if p1 = [] then None else Some p1),
                    d_timestamp = (case rest of [] \<Rightarrow> None | p2 # _ \<Rightarrow> Some p2) \<rparr>
          | _ \<Rightarrow> Inl IndexError)"
  using assms
  by (auto simp: lock_parse_def owner_field_def lock_fields_def py_int_parseable
      split_sep_nonempty split: list.splits)

text \<open>
  C4, as amended. Let the owner id field of a lock file be no decimal number. The
  inspection is a total function (nothing is raised); it reports no owner id and the
  owner as not alive. It reports the lock as corrupt, with no fingerprint and no
  timestamp, exactly when the content has no separator or the field is made of digit
  characters that \<open>int\<close> refuses; otherwise it reports the lock as not corrupt and takes the
  fingerprint from the second field.
\<close>

theorem inspect_lock_bad_owner:
  assumes "files w (get_lock_path p) = Some f"
    and "\<not> parseable_int (owner_field (content f))"
  shows "lock_exists (inspect_lock p w)
    \<and> pid (inspect_lock p w) = None
    \<and> \<not> alive (inspect_lock p w)
    \<and> corrupt (inspect_lock p w)
        = (isdigit (owner_field (content f)) \<or> length (lock_fields (content f)) < 2)
    \<and> (corrupt (inspect_lock p w) \<longrightarrow>
         session_hash (inspect_lock p w) = None \<and> timestamp (inspect_lock p w) = None)
    \<and> (\<not> corrupt (inspect_lock p w) \<longrightarrow>
         session_hash (inspect_lock p w)
           = (if lock_fields (content f) ! 1 = [] then None
              else Some (lock_fields (content f) ! 1)))"
  using assms(1) lock_parse_not_parseable [OF assms(2)]
  by (auto simp: inspect_lock_def split: list.splits)

lemma fields_garbled: "lock_fields ''abc|deadbeef|T0'' = [''abc'', ''deadbeef'', ''T0'']"
proof -
  have "universal_newlines ''abc|deadbeef|T0'' = ''abc|deadbeef|T0''"
    by (rule universal_newlines_id) (simp add: CR_def)
  moreover have "strip ''abc|deadbeef|T0'' = ''abc|deadbeef|T0''"
    by (rule strip_id) (simp_all add: isspace_def)
  moreover have "split_sep LOCK_SEPARATOR ''abc|deadbeef|T0'' = [''abc'', ''deadbeef'', ''T0'']"
    by (simp add: LOCK_SEPARATOR_def)
  ultimately show ?thesis by (simp only: lock_fields_def)
qed

lemma garbled_owner: "\<not> parseable_int (owner_field ''abc|deadbeef|T0'')"
  "\<not> isdigit (owner_field ''abc|deadbeef|T0'')"
  by (simp_all add: owner_field_def fields_garbled parseable_int_def is_decimal_def
      isdigit_def is_digit_char_def)

lemma files_garbled: "files garbled_world (get_lock_path ''f'') = Some (example_file ''abc|deadbeef|T0'')"
  by (simp add: garbled_world_def example_world_def example_lock_path)

theorem inspect_lock_bad_owner_witness:
  "files garbled_world (get_lock_path ''f'') = Some (example_file ''abc|deadbeef|T0'')
   \<and> \<not> parseable_int (owner_field (content (example_file ''abc|deadbeef|T0'')))
   \<and> pid (inspect_lock ''f'' garbled_world) = None
   \<and> \<not> alive (inspect_lock ''f'' garbled_world)
   \<and> \<not> corrupt (inspect_lock ''f'' garbled_world)"
proof -
  have c: "content (example_file ''abc|deadbeef|T0'') = ''abc|deadbeef|T0''"
    by (simp add: example_file_def)
  have np: "\<not> parseable_int (owner_field (content (example_file ''abc|deadbeef|T0'')))"
    by (simp only: c garbled_owner simp_thms)
  from inspect_lock_bad_owner [OF files_garbled np]
  have "pid (inspect_lock ''f'' garbled_world) = None
    \<and> \<not> alive (inspect_lock ''f'' garbled_world)
    \<and> corrupt (inspect_lock ''f'' garbled_world)
        = (isdigit (owner_field ''abc|deadbeef|T0'') \<or> length (lock_fields ''abc|deadbeef|T0'') < 2)"
    by (simp only: c) blast
  then show ?thesis
    using files_garbled np by (simp add: garbled_owner fields_garbled)
qed

text \<open>
  C4 as stated fails: a lock file whose first field is \<open>abc\<close> and that has its separators
  is reported as not corrupt, and its second field is reported as the fingerprint.
\<close>

theorem inspect_lock_bad_owner_counterexample:
  "\<not> parseable_int (owner_field (content (example_file ''abc|deadbeef|T0'')))
   \<and> files garbled_world (get_lock_path ''f'') = Some (example_file ''abc|deadbeef|T0'')
   \<and> corrupt (inspect_lock ''f'' garbled_world) = False
   \<and> session_hash (inspect_lock ''f'' garbled_world) = Some ''deadbeef''"
proof -
  have c: "content (example_file ''abc|deadbeef|T0'') = ''abc|deadbeef|T0''"
    by (simp add: example_file_def)
  have p: "lock_parse (universal_newlines ''abc|deadbeef|T0'')
    = Inr \<lparr> d_pid = None, d_session_hash = Some ''deadbeef'', d_timestamp = Some ''T0'' \<rparr>"
    using lock_parse_not_parseable [OF garbled_owner(1)]
    by (simp add: garbled_owner(2) fields_garbled)
  have "inspect_lock ''f'' garbled_world
    = \<lparr> lock_path = ''f.lock'', lock_exists = True, pid = None, alive = False,
        session_hash = Some ''deadbeef'', timestamp = Some ''T0'', corrupt = False \<rparr>"
    using files_garbled
    by (simp add: inspect_lock_def c p example_lock_path del: universal_newlines.simps)
  then show ?thesis
    using files_garbled garbled_owner(1) by (simp add: c)
qed

section \<open>Simulated sessions\<close>

lemma write_to_devnull: "foldl (\<lambda>v s. stream_write Devnull s v) w chunks = w"
  by (induction chunks) (simp_all add: stream_write_def)

text \<open>
  C2, as amended. A session opened with \<open>simulate\<close> set touches nothing: entering it
  hands out the null device without looking at the lock, every write is dropped, and on
  exit the world is what it was on entry (no lock file created or removed, no temporary
  file, no rename, no sleep); the caller sees the outcome of its own block.
\<close>

theorem simulate_session_no_effect:
  "AtomicWriter_enter (AtomicWriter_init t p r d True s force_v) w
     = (Inr ((AtomicWriter_init t p r d True s force_v)\<lparr>w_file := Some Devnull\<rparr>), w)
   \<and> with_AtomicWriter (AtomicWriter_init t p r d True s force_v) (Block chunks exc) w
     = ((case exc of None \<Rightarrow> Inr () | Some e \<Rightarrow> Inl e), w)"
  by (simp add: with_AtomicWriter_def AtomicWriter_enter_def AtomicWriter_exit_def
      AtomicWriter_init_def write_to_devnull split: option.splits)

lemma AtomicWriter_enter_cases:
  "AtomicWriter_enter (AtomicWriter_init t p r d False s force_v) w =
     (case try_acquire_lock p r d s force_v w of
        (Inl e, w1) \<Rightarrow> (Inl e, w1)
      | (Inr ok, w1) \<Rightarrow>
          if \<not> ok then (Inl RuntimeError, w1)
          else (Inr ((AtomicWriter_init t p r d False s force_v)
                      \<lparr>w_file := Some (Writing (get_tmp_path t p))\<rparr>),
                w1\<lparr>files := (files w1)(get_tmp_path t p \<mapsto>
                       (case files w1 (get_tmp_path t p) of
                          None \<Rightarrow> new_file [] w1
                        | Some f \<Rightarrow> f\<lparr>content := []\<rparr>)),
                    trace := trace w1 @ [Opened (get_tmp_path t p)]\<rparr>))"
  by (simp add: AtomicWriter_enter_def AtomicWriter_init_def open_write_def emit_def
      split: prod.splits sum.splits)

lemma enter_free_world:
  "files (snd (AtomicWriter_enter (AtomicWriter_init t ''f'' 5 (1 / 10) False s False) free_world))
     (get_lock_path ''f'') \<noteq> None"
proof -
  let ?r = "try_acquire_lock ''f'' 5 (1 / 10) s False free_world"
  have "fst ?r = Inr True"
    by (rule try_acquire_free_world)
  then have eq: "?r = (Inr True, snd ?r)"
    by (metis prod.collapse)
  then have "acquire_loop (nat 5) ''f'' (1 / 10) (session_to_hash free_world s)
      (utc_iso free_world) False free_world = (Inr True, snd ?r)"
    by (simp only: try_acquire_lock_def)
  from acquire_loop_True [OF this]
  have "files (snd ?r) (get_lock_path ''f'') \<noteq> None" by auto
  moreover have "AtomicWriter_enter (AtomicWriter_init t ''f'' 5 (1 / 10) False s False) free_world
    = (Inr ((AtomicWriter_init t ''f'' 5 (1 / 10) False s False)
                      \<lparr>w_file := Some (Writing (get_tmp_path t ''f''))\<rparr>),
       (snd ?r)\<lparr>files := (files (snd ?r))(get_tmp_path t ''f'' \<mapsto>
                       (case files (snd ?r) (get_tmp_path t ''f'') of
                          None \<Rightarrow> new_file [] (snd ?r)
                        | Some f \<Rightarrow> f\<lparr>content := []\<rparr>)),
                    trace := trace (snd ?r) @ [Opened (get_tmp_path t ''f'')]\<rparr>)"
    by (subst AtomicWriter_enter_cases, subst eq) simp
  ultimately show ?thesis
    using tmp_path_neq_own_lock_path [of t "''f''"] by (simp del: fun_upd_apply add: fun_upd_other)
qed

text \<open>
  C2 as stated fails: on a target that is not locked, entering a simulated session
  leaves no lock file, while entering the same session without \<open>simulate\<close> creates it;
  and on a target locked by a live process the simulated session opens and ends without
  an error.
\<close>

theorem simulate_session_counterexample:
  "files (snd (AtomicWriter_enter (AtomicWriter_init 0 ''f'' 5 (1 / 10) True None False)
       free_world)) (get_lock_path ''f'') = None
   \<and> files (snd (AtomicWriter_enter (AtomicWriter_init 0 ''f'' 5 (1 / 10) False None False)
       free_world)) (get_lock_path ''f'') \<noteq> None
   \<and> with_AtomicWriter (AtomicWriter_init 0 ''f'' 5 (1 / 10) True None False)
       (Block [''new''] None) held_world = (Inr (), held_world)"
proof -
  have "AtomicWriter_enter (AtomicWriter_init 0 ''f'' 5 (1 / 10) True None False) free_world
    = (Inr ((AtomicWriter_init 0 ''f'' 5 (1 / 10) True None False)\<lparr>w_file := Some Devnull\<rparr>),
       free_world)"
    by (simp add: AtomicWriter_enter_def AtomicWriter_init_def)
  then have a: "files (snd (AtomicWriter_enter
      (AtomicWriter_init 0 ''f'' 5 (1 / 10) True None False) free_world)) (get_lock_path ''f'')
    = None"
    by (simp only: snd_conv example_lock_path files_example_worlds)
  have b: "with_AtomicWriter (AtomicWriter_init 0 ''f'' 5 (1 / 10) True None False)
       (Block [''new''] None) held_world = (Inr (), held_world)"
    by (simp add: with_AtomicWriter_def AtomicWriter_enter_def AtomicWriter_exit_def
        AtomicWriter_init_def stream_write_def)
  from a enter_free_world [of 0 None] b show ?thesis by (intro conjI)
qed

section \<open>A session that does not get the lock\<close>

lemma try_acquire_held_world:
  "try_acquire_lock ''f'' 2 (1 / 10) s False held_world
     = (Inr False,
        held_world\<lparr>now := now held_world + real (nat 2) * (1 / 10),
                    trace := trace held_world @ replicate (nat 2) (Slept (1 / 10))\<rparr>)"
  unfolding try_acquire_lock_def
  by (rule acquire_loop_held)
    (simp_all add: example_lock_path files_example_worlds inspect_held_world
      can_sleep_examples)

text \<open>
  C5. When the lock acquisition of a session without \<open>simulate\<close> returns False, entering
  the session raises the RuntimeError that reports the lock as unavailable, the caller's
  block and the exit code do not run, and the world is the one the failed acquisition
  left: the target and the temporary path hold what they held, no path other than the
  lock path has changed, and the session created no file at all (it only slept or
  removed a lock that could be reclaimed), so no lock file comes from it.
\<close>

theorem writer_open_fails_clean:
  assumes "try_acquire_lock p r d s force_v w = (Inr False, w')"
  shows "AtomicWriter_enter (AtomicWriter_init t p r d False s force_v) w
      = (Inl RuntimeError, w')
    \<and> with_AtomicWriter (AtomicWriter_init t p r d False s force_v) blk w
      = (Inl RuntimeError, w')
    \<and> files w' p = files w p
    \<and> files w' (get_tmp_path t p) = files w (get_tmp_path t p)
    \<and> (\<forall>q. q \<noteq> get_lock_path p \<longrightarrow> files w' q = files w q)
    \<and> (\<exists>evs. trace w' = trace w @ evs \<and> \<not> list_ex makes_file evs)"
proof -
  from assms have l: "acquire_loop (nat r) p d (session_to_hash w s) (utc_iso w) force_v w
      = (Inr False, w')"
    by (simp add: try_acquire_lock_def)
  have e: "AtomicWriter_enter (AtomicWriter_init t p r d False s force_v) w
      = (Inl RuntimeError, w')"
    by (simp add: AtomicWriter_enter_cases assms)
  then have x: "with_AtomicWriter (AtomicWriter_init t p r d False s force_v) blk w
      = (Inl RuntimeError, w')"
    by (simp add: with_AtomicWriter_def)
  from acquire_loop_frame [OF l]
  have fr: "\<forall>q. q \<noteq> get_lock_path p \<longrightarrow> files w' q = files w q"
    by simp
  then have "files w' p = files w p"
    and "files w' (get_tmp_path t p) = files w (get_tmp_path t p)"
    using lock_path_neq_path [of p] tmp_path_neq_own_lock_path [of t p] by metis+
  with e x fr acquire_loop_False [OF l] show ?thesis by simp
qed

theorem writer_open_fails_clean_witness:
  "fst (try_acquire_lock ''f'' 2 (1 / 10) None False held_world) = Inr False
   \<and> fst (with_AtomicWriter (AtomicWriter_init 0 ''f'' 2 (1 / 10) False None False)
        (Block [''new''] None) held_world) = Inl RuntimeError
   \<and> files (snd (with_AtomicWriter (AtomicWriter_init 0 ''f'' 2 (1 / 10) False None False)
        (Block [''new''] None) held_world)) ''f'' = Some (example_file ''old'')"
proof -
  let ?w' = "held_world\<lparr>now := now held_world + real (nat 2) * (1 / 10),
      trace := trace held_world @ replicate (nat 2) (Slept (1 / 10))\<rparr>"
  note T = writer_open_fails_clean [OF try_acquire_held_world [of None], of 0 "Block [''new''] None"]
  from T have a: "with_AtomicWriter (AtomicWriter_init 0 ''f'' 2 (1 / 10) False None False)
      (Block [''new''] None) held_world = (Inl RuntimeError, ?w')"
    by blast
  from T have b: "files ?w' ''f'' = files held_world ''f''"
    by blast
  show ?thesis
    by (simp only: a b try_acquire_held_world fst_conv snd_conv files_example_worlds simp_thms)
qed

section \<open>A session that holds the lock\<close>

lemma write_chunks:
  "files w q = Some T \<Longrightarrow>
   foldl (\<lambda>v s. stream_write (Writing q) s v) w chunks
     = w\<lparr>files := (files w)(q \<mapsto> T\<lparr>content := content T @ concat chunks\<rparr>)\<rparr>"
proof (induction chunks arbitrary: w T)
  case Nil
  then have "(files w)(q \<mapsto> T) = files w" by (simp add: fun_upd_idem)
  then show ?case by simp
next
  case (Cons c cs)
  let ?w = "w\<lparr>files := (files w)(q \<mapsto> T\<lparr>content := content T @ c\<rparr>)\<rparr>"
  have step: "stream_write (Writing q) c w = ?w"
    using Cons.prems by (simp add: stream_write_def)
  have "foldl (\<lambda>v s. stream_write (Writing q) s v) ?w cs
    = ?w\<lparr>files := (files ?w)(q \<mapsto> (T\<lparr>content := content T @ c\<rparr>)
        \<lparr>content := content (T\<lparr>content := content T @ c\<rparr>) @ concat cs\<rparr>)\<rparr>"
    by (rule Cons.IH) simp
  also have "\<dots> = w\<lparr>files := (files w)(q \<mapsto> T\<lparr>content := content T @ concat (c # cs)\<rparr>)\<rparr>"
    by simp
  finally show ?case by (simp only: foldl_Cons step)
qed

lemma AtomicWriter_exit_effect:
  assumes T: "files w (get_tmp_path t p) = Some T"
    and L: "files w (get_lock_path p) \<noteq> None"
    and self: "path self = p" "tmpfile self = get_tmp_path t p" "\<not> simulate self"
  shows "\<exists>w' g. AtomicWriter_exit self w = (Inr (), w')
    \<and> files w' p = Some g \<and> content g = content T
    \<and> files w' (get_tmp_path t p) = None
    \<and> files w' (get_lock_path p) = None
    \<and> (\<forall>q. q \<noteq> p \<and> q \<noteq> get_tmp_path t p \<and> q \<noteq> get_lock_path p \<longrightarrow> files w' q = files w q)
    \<and> now w' = now w
    \<and> (\<exists>pr. trace w' = trace w @ pr @ [Replaced (get_tmp_path t p) p, Removed (get_lock_path p)])"
proof -
  note ne = tmp_path_neq_path [of t p] tmp_path_neq_own_lock_path [of t p] lock_path_neq_path [of p]
  obtain l where l: "files w (get_lock_path p) = Some l"
    using L by auto
  show ?thesis
  proof (cases "files w p")
    case None
    with T l self ne show ?thesis
      by (simp add: AtomicWriter_exit_def os_path_exists_def os_replace_def
          force_release_lock_cases os_remove_def emit_def)
  next
    case (Some g)
    show ?thesis
    proof (cases "get_tmp_path t p \<in> stat_denied w")
      case True
      with Some T l self ne show ?thesis
        by (simp add: AtomicWriter_exit_def os_path_exists_def os_replace_def
            copystat_best_effort_def shutil_copystat_def
            force_release_lock_cases os_remove_def emit_def)
    next
      case False
      with Some T l self ne show ?thesis
        by (simp add: AtomicWriter_exit_def os_path_exists_def os_replace_def
            copystat_best_effort_def shutil_copystat_def
            force_release_lock_cases os_remove_def emit_def)
    qed
  qed
qed


lemma session_with_lock:
  assumes acq: "try_acquire_lock p r d s force_v w = (Inr True, w1)"
  shows "\<exists>w' g. with_AtomicWriter (AtomicWriter_init t p r d False s force_v) (Block chunks exc) w
        = ((case exc of None \<Rightarrow> Inr () | Some e \<Rightarrow> Inl e), w')
    \<and> files w' p = Some g \<and> content g = concat chunks
    \<and> files w' (get_tmp_path t p) = None
    \<and> files w' (get_lock_path p) = None
    \<and> (\<forall>q. q \<noteq> p \<and> q \<noteq> get_tmp_path t p \<and> q \<noteq> get_lock_path p \<longrightarrow> files w' q = files w q)
    \<and> now w' = now w1
    \<and> (\<exists>pr. trace w' = trace w1 @ Opened (get_tmp_path t p) # pr
               @ [Replaced (get_tmp_path t p) p, Removed (get_lock_path p)])"
proof -
  let ?tmp = "get_tmp_path t p" and ?lp = "get_lock_path p"
  let ?self = "AtomicWriter_init t p r d False s force_v"
  let ?self1 = "?self\<lparr>w_file := Some (Writing ?tmp)\<rparr>"
  define T0 where "T0 = (case files w1 ?tmp of None \<Rightarrow> new_file [] w1 | Some f \<Rightarrow> f\<lparr>content := []\<rparr>)"
  define w2 where "w2 = w1\<lparr>files := (files w1)(?tmp \<mapsto> T0), trace := trace w1 @ [Opened ?tmp]\<rparr>"
  define w3 where "w3 = w2\<lparr>files := (files w2)(?tmp \<mapsto> T0\<lparr>content := content T0 @ concat chunks\<rparr>)\<rparr>"
  note ne = tmp_path_neq_path [of t p] tmp_path_neq_own_lock_path [of t p] lock_path_neq_path [of p]
  have c0: "content T0 = []"
    by (simp add: T0_def new_file_def split: option.splits)
  from acq have l: "acquire_loop (nat r) p d (session_to_hash w s) (utc_iso w) force_v w
      = (Inr True, w1)"
    by (simp add: try_acquire_lock_def)
  from acquire_loop_True [OF l] have lock: "files w1 ?lp \<noteq> None"
    by auto
  from acquire_loop_frame [OF l] have fr: "\<forall>q. q \<noteq> ?lp \<longrightarrow> files w1 q = files w q"
    by simp
  have enter: "AtomicWriter_enter ?self w = (Inr ?self1, w2)"
    by (simp add: AtomicWriter_enter_cases acq w2_def T0_def)
  have "files w2 ?tmp = Some T0"
    by (simp add: w2_def)
  then have fold: "foldl (\<lambda>v s. stream_write (Writing ?tmp) s v) w2 chunks = w3"
    unfolding w3_def by (rule write_chunks)
  then have run: "run_block (Writing ?tmp) (Block chunks exc) w2 = (exc, w3)"
    by simp
  have T3: "files w3 ?tmp = Some (T0\<lparr>content := content T0 @ concat chunks\<rparr>)"
    by (simp add: w3_def)
  have L3: "files w3 ?lp \<noteq> None"
    using lock ne by (simp add: w3_def w2_def)
  have self1: "path ?self1 = p" "tmpfile ?self1 = ?tmp" "\<not> simulate ?self1"
    by (simp_all add: AtomicWriter_init_def)
  from AtomicWriter_exit_effect [OF T3 L3 self1] obtain w' g where
    ex: "AtomicWriter_exit ?self1 w3 = (Inr (), w')" and
    g: "files w' p = Some g" "content g = content (T0\<lparr>content := content T0 @ concat chunks\<rparr>)" and
    gone: "files w' ?tmp = None" "files w' ?lp = None" and
    other: "\<forall>q. q \<noteq> p \<and> q \<noteq> ?tmp \<and> q \<noteq> ?lp \<longrightarrow> files w' q = files w3 q" and
    clock: "now w' = now w3" and
    tr: "\<exists>pr. trace w' = trace w3 @ pr @ [Replaced ?tmp p, Removed ?lp]"
    by blast
  have res: "with_AtomicWriter ?self (Block chunks exc) w
      = ((case exc of None \<Rightarrow> Inr () | Some e \<Rightarrow> Inl e), w')"
    unfolding with_AtomicWriter_def
    by (simp only: enter prod.case sum.case) (simp add: fold ex split: option.splits)
  have cg: "content g = concat chunks"
    using g(2) c0 by simp
  have oth: "\<forall>q. q \<noteq> p \<and> q \<noteq> ?tmp \<and> q \<noteq> ?lp \<longrightarrow> files w' q = files w q"
    using other fr by (simp add: w3_def w2_def)
  have cl: "now w' = now w1"
    using clock by (simp add: w3_def w2_def)
  have "\<exists>pr. trace w' = trace w1 @ Opened ?tmp # pr @ [Replaced ?tmp p, Removed ?lp]"
    using tr by (simp add: w3_def w2_def)
  with res g(1) cg gone oth cl show ?thesis by blast
qed

section \<open>A block that raises\<close>

lemma try_acquire_free_world_eq:
  "try_acquire_lock ''f'' 5 (1 / 10) s False free_world
     = (Inr True, snd (try_acquire_lock ''f'' 5 (1 / 10) s False free_world))"
  using try_acquire_free_world [of s] by (metis prod.collapse)

text \<open>
  C1, on the code. The target \<open>f\<close> holds \<open>old\<close> and is not locked. A session without
  \<open>simulate\<close> is opened on it, the caller's block writes \<open>par\<close> and then raises. The
  exception reaches the caller, but the exit code has renamed the temporary file onto the
  target all the same: the target now holds \<open>par\<close>.
\<close>

theorem writer_block_raises_publishes:
  "fst (with_AtomicWriter (AtomicWriter_init 0 ''f'' 5 (1 / 10) False None False)
         (Block [''par''] (Some BlockError)) free_world) = Inl BlockError
   \<and> map_option content
        (files (snd (with_AtomicWriter (AtomicWriter_init 0 ''f'' 5 (1 / 10) False None False)
           (Block [''par''] (Some BlockError)) free_world)) ''f'') = Some ''par''
   \<and> map_option content (files free_world ''f'') = Some ''old''"
proof -
  from session_with_lock [OF try_acquire_free_world_eq, of 0 None "[''par'']" "Some BlockError"]
  obtain w' g where
    "with_AtomicWriter (AtomicWriter_init 0 ''f'' 5 (1 / 10) False None False)
       (Block [''par''] (Some BlockError)) free_world = (Inl BlockError, w')"
    and "files w' ''f'' = Some g" and "content g = concat [''par'']"
    by auto
  then show ?thesis
    by (simp add: files_example_worlds example_file_def)
qed

section \<open>Writing, then reading\<close>

lemma write_atomic_success:
  assumes "write_atomic t p c r d False s force_v w = (Inr (), w')"
  shows "\<exists>g. files w' p = Some g \<and> content g = c \<and> files w' (get_lock_path p) = None"
proof -
  obtain x w1 where acq: "try_acquire_lock p r d s force_v w = (x, w1)"
    by (cases "try_acquire_lock p r d s force_v w")
  have w: "with_AtomicWriter (AtomicWriter_init t p r d False s force_v) (Block [c] None) w
      = (Inr (), w')"
    using assms by (simp add: write_atomic_def)
  show ?thesis
  proof (cases x)
    case (Inl e)
    with acq have "AtomicWriter_enter (AtomicWriter_init t p r d False s force_v) w = (Inl e, w1)"
      by (simp add: AtomicWriter_enter_cases)
    with w show ?thesis by (simp add: with_AtomicWriter_def)
  next
    case (Inr ok)
    show ?thesis
    proof (cases ok)
      case False
      with acq Inr
      have "AtomicWriter_enter (AtomicWriter_init t p r d False s force_v) w
          = (Inl RuntimeError, w1)"
        by (simp add: AtomicWriter_enter_cases)
      with w show ?thesis by (simp add: with_AtomicWriter_def)
    next
      case True
      with acq Inr have "try_acquire_lock p r d s force_v w = (Inr True, w1)" by simp
      from session_with_lock [OF this, of t "[c]" None] w
      show ?thesis by auto
    qed
  qed
qed

lemma read_atomic_present:
  assumes "files w p = Some g" and "files w (get_lock_path p) = None" and "0 < r"
  shows "read_atomic p r d req w = (Inr (universal_newlines (content g)), w)"
proof -
  from assms(3) obtain n where n: "nat r = Suc n"
    by (cases "nat r") auto
  have "reader_loop (Suc n) p d req w = (Inr (Reading p), w)"
    using assms(1,2) by (simp add: is_locked_def os_path_exists_def open_read_def)
  then show ?thesis
    using assms(1)
    by (simp add: read_atomic_def AtomicReader_enter_def AtomicReader_init_def n read_text_def
        del: reader_loop.simps)
qed

text \<open>
  C7, as amended. When the core write of a text \<open>c\<close> (without \<open>simulate\<close>) succeeds, a
  following core read with at least one attempt succeeds and returns \<open>c\<close> as text mode
  reads it: with every CR LF pair and every lone CR turned into LF. So the read returns
  exactly \<open>c\<close> when \<open>c\<close> has no carriage return, the empty text included.
\<close>

theorem write_then_read:
  assumes "write_atomic t p c r d False s force_v w = (Inr (), w')" and "0 < r2"
  shows "read_atomic p r2 d2 req w' = (Inr (universal_newlines c), w')
    \<and> (CR \<notin> set c \<longrightarrow> read_atomic p r2 d2 req w' = (Inr c, w'))"
proof -
  from write_atomic_success [OF assms(1)] obtain g where
    "files w' p = Some g" "content g = c" "files w' (get_lock_path p) = None"
    by blast
  from read_atomic_present [OF this(1,3) assms(2), of d2 req] this(2)
  show ?thesis by (simp add: universal_newlines_id)
qed

lemma write_atomic_free_world:
  "\<exists>w'. write_atomic 0 ''f'' c 5 (1 / 10) False None False free_world = (Inr (), w')"
  using session_with_lock [OF try_acquire_free_world_eq, of 0 None "[c]" None]
  by (auto simp: write_atomic_def)

theorem write_then_read_witness:
  "fst (write_atomic 0 ''f'' [CHR ''c'', CHR 0xE9] 5 (1 / 10) False None False free_world) = Inr ()
   \<and> CR \<notin> set [CHR ''c'', CHR 0xE9]
   \<and> read_atomic ''f'' 5 (1 / 10) False
        (snd (write_atomic 0 ''f'' [CHR ''c'', CHR 0xE9] 5 (1 / 10) False None False free_world))
       = (Inr [CHR ''c'', CHR 0xE9],
          snd (write_atomic 0 ''f'' [CHR ''c'', CHR 0xE9] 5 (1 / 10) False None False free_world))"
proof -
  let ?wr = "write_atomic 0 ''f'' [CHR ''c'', CHR 0xE9] 5 (1 / 10) False None False free_world"
  from write_atomic_free_world [of "[CHR ''c'', CHR 0xE9]"]
  have ok: "?wr = (Inr (), snd ?wr)"
    by auto
  have cr: "CR \<notin> set [CHR ''c'', CHR 0xE9]"
    by (simp add: CR_def)
  have r: "(0::int) < 5"
    by simp
  from write_then_read [OF ok r, of "1 / 10" False] cr
  have "read_atomic ''f'' 5 (1 / 10) False (snd ?wr) = (Inr [CHR ''c'', CHR 0xE9], snd ?wr)"
    by blast
  moreover from ok have "fst ?wr = Inr ()"
    by (metis fst_conv)
  ultimately show ?thesis
    using cr by (intro conjI)
qed

text \<open>
  C7 as stated fails for a text with a carriage return: \<open>a\<close>, CR, \<open>b\<close> is written, and
  \<open>a\<close>, LF, \<open>b\<close> is read back.
\<close>

theorem write_then_read_counterexample:
  "fst (write_atomic 0 ''f'' [CHR ''a'', CR, CHR ''b''] 5 (1 / 10) False None False free_world)
     = Inr ()
   \<and> fst (read_atomic ''f'' 5 (1 / 10) False
        (snd (write_atomic 0 ''f'' [CHR ''a'', CR, CHR ''b''] 5 (1 / 10) False None False
           free_world)))
     = Inr [CHR ''a'', LF, CHR ''b'']
   \<and> [CHR ''a'', LF, CHR ''b''] \<noteq> [CHR ''a'', CR, CHR ''b'']"
proof -
  let ?wr = "write_atomic 0 ''f'' [CHR ''a'', CR, CHR ''b''] 5 (1 / 10) False None False free_world"
  from write_atomic_free_world [of "[CHR ''a'', CR, CHR ''b'']"]
  have ok: "?wr = (Inr (), snd ?wr)"
    by auto
  from write_atomic_success [OF ok] obtain g where
    g: "files (snd ?wr) ''f'' = Some g" "content g = [CHR ''a'', CR, CHR ''b'']"
      "files (snd ?wr) (get_lock_path ''f'') = None"
    by blast
  have u: "universal_newlines [CHR ''a'', CR, CHR ''b''] = [CHR ''a'', LF, CHR ''b'']"
    by (simp add: CR_def LF_def)
  have "read_atomic ''f'' 5 (1 / 10) False (snd ?wr) = (Inr [CHR ''a'', LF, CHR ''b''], snd ?wr)"
    using read_atomic_present [OF g(1,3), of 5 "1 / 10" False] by (simp add: g(2) u del: universal_newlines.simps)
  moreover from ok have "fst ?wr = Inr ()"
    by (metis fst_conv)
  moreover have "[CHR ''a'', LF, CHR ''b''] \<noteq> [CHR ''a'', CR, CHR ''b'']"
    by (simp add: CR_def LF_def)
  ultimately show ?thesis
    by (simp only: fst_conv simp_thms)
qed

section \<open>Format wrappers\<close>

lemma write_atomic_held:
  assumes "files w (get_lock_path p) \<noteq> None" and "alive (inspect_lock p w)"
    and "can_sleep d"
  shows "write_atomic t p c r d False s False w
    = (Inl RuntimeError,
       w\<lparr>now := now w + real (nat r) * d, trace := trace w @ replicate (nat r) (Slept d)\<rparr>)"
proof -
  have "try_acquire_lock p r d s False w
    = (Inr False,
       w\<lparr>now := now w + real (nat r) * d, trace := trace w @ replicate (nat r) (Slept d)\<rparr>)"
    unfolding try_acquire_lock_def using assms by (intro acquire_loop_held) simp_all
  then show ?thesis
    by (simp add: write_atomic_def with_AtomicWriter_def AtomicWriter_enter_cases)
qed

lemma atomic_pickle_write_effect:
  assumes "pickle_dumps data = Inr bytes"
  shows "\<exists>w' g. atomic_pickle_write pickle_dumps t p data w = (Inr (), w')
    \<and> files w' p = Some g \<and> content g = bytes
    \<and> files w' (get_tmp_path t p) = None
    \<and> (\<forall>q. q \<noteq> p \<and> q \<noteq> get_tmp_path t p \<longrightarrow> files w' q = files w q)
    \<and> now w' = now w
    \<and> live w' = live w"
proof -
  note ne = tmp_path_neq_path [of t p]
  show ?thesis
  proof (cases "files w p")
    case None
    with assms ne show ?thesis
      by (simp add: atomic_pickle_write_def open_write_def stream_write_def os_path_exists_def
          os_replace_def emit_def new_file_def Let_def split: option.splits)
  next
    case (Some g)
    show ?thesis
    proof (cases "get_tmp_path t p \<in> stat_denied w")
      case True
      with Some assms ne show ?thesis
        by (simp add: atomic_pickle_write_def open_write_def stream_write_def os_path_exists_def
            copystat_best_effort_def shutil_copystat_def
            os_replace_def emit_def new_file_def Let_def split: option.splits)
    next
      case False
      with Some assms ne show ?thesis
        by (simp add: atomic_pickle_write_def open_write_def stream_write_def os_path_exists_def
            copystat_best_effort_def shutil_copystat_def
            os_replace_def emit_def new_file_def Let_def split: option.splits)
    qed
  qed
qed


lemma session_held:
  assumes "files w (get_lock_path p) \<noteq> None" and "alive (inspect_lock p w)"
    and "can_sleep d"
  shows "with_AtomicWriter (AtomicWriter_init t p r d False s False) blk w
    = (Inl RuntimeError,
       w\<lparr>now := now w + real (nat r) * d, trace := trace w @ replicate (nat r) (Slept d)\<rparr>)"
proof -
  have "try_acquire_lock p r d s False w
    = (Inr False,
       w\<lparr>now := now w + real (nat r) * d, trace := trace w @ replicate (nat r) (Slept d)\<rparr>)"
    unfolding try_acquire_lock_def using assms by (intro acquire_loop_held) simp_all
  then show ?thesis
    by (simp add: with_AtomicWriter_def AtomicWriter_enter_cases)
qed

lemma write_nowhere:
  assumes "\<And>q. h = Writing q \<Longrightarrow> files w q = None"
  shows "foldl (\<lambda>v s. stream_write h s v) w chunks = w"
proof (induction chunks)
  case Nil
  show ?case by simp
next
  case (Cons c cs)
  have "stream_write h c w = w"
    using assms by (cases h) (simp_all add: stream_write_def)
  with Cons show ?case by simp
qed

lemma run_block_concat:
  "run_block h (Block chunks exc) w = run_block h (Block [concat chunks] exc) w"
proof (cases "\<exists>q T. h = Writing q \<and> files w q = Some T")
  case True
  then obtain q T where h: "h = Writing q" and T: "files w q = Some T"
    by blast
  from write_chunks [OF T, of chunks] write_chunks [OF T, of "[concat chunks]"]
  show ?thesis by (simp add: h)
next
  case False
  then have n: "\<And>q. h = Writing q \<Longrightarrow> files w q = None"
    by auto
  from write_nowhere [of h w chunks, OF n] write_nowhere [of h w "[concat chunks]", OF n]
  show ?thesis by simp
qed

lemma with_AtomicWriter_concat:
  "with_AtomicWriter self (Block chunks exc) w
     = with_AtomicWriter self (Block [concat chunks] exc) w"
proof -
  have "\<And>h v. run_block h (Block chunks exc) v = run_block h (Block [concat chunks] exc) v"
    by (rule run_block_concat)
  then show ?thesis
    unfolding with_AtomicWriter_def by (simp only:)
qed

lemma atomic_pickle_read_direct:
  "atomic_pickle_read pickle_loads p w
     = (case files w p of None \<Rightarrow> Inl FileNotFoundError | Some f \<Rightarrow> pickle_loads (content f))"
  by (simp add: atomic_pickle_read_def open_read_def os_path_exists_def read_bytes_def
      split: option.splits)

text \<open>
  C3, as amended. \<open>atomic_json_dump\<close> and \<open>atomic_yaml_dump\<close> are the core write applied to
  the encoded text, and \<open>atomic_json_load\<close>, \<open>atomic_yaml_load\<close> and \<open>atomic_yaml_load_ruamel\<close>
  are the core read followed by the decoding, with the default parameters and nothing
  else. \<open>atomic_yaml_dump_ruamel\<close> opens a core write session with the default parameters
  and lets the dumper write into its stream; when the dumper completes, that is the core
  write of the text it produced. None of them adds anything about locks: against a lock
  held by a live process each of the three dumps fails with the RuntimeError of the core
  write after the default retries, the files untouched. The pickle pair is not built on
  the core operations. \<open>atomic_pickle_write\<close> stages the bytes in a temporary file of its
  own and renames it onto the target without taking or looking at the lock: whenever the
  serialisation succeeds it succeeds at once, the target holds the bytes, and the lock
  file is what it was. \<open>atomic_pickle_read\<close> opens the target once, in binary mode, and
  decodes its bytes: no retry, no look at the lock, no newline translation.
\<close>

theorem format_wrappers:
  "atomic_json_dump enc t p obj w
     = (case enc obj of
          Inl e \<Rightarrow> (Inl e, w)
        | Inr text \<Rightarrow> write_atomic t p text DEFAULT_RETRIES DEFAULT_DELAY False None False w)
   \<and> atomic_yaml_dump enc t p obj w
     = (case enc obj of
          Inl e \<Rightarrow> (Inl e, w)
        | Inr text \<Rightarrow> write_atomic t p text DEFAULT_RETRIES DEFAULT_DELAY False None False w)
   \<and> atomic_json_load dec p w
     = (case read_atomic p DEFAULT_RETRIES DEFAULT_DELAY False w of
          (Inl e, w1) \<Rightarrow> (Inl e, w1)
        | (Inr text, w1) \<Rightarrow> (dec text, w1))
   \<and> atomic_yaml_load dec p w
     = (case read_atomic p DEFAULT_RETRIES DEFAULT_DELAY False w of
          (Inl e, w1) \<Rightarrow> (Inl e, w1)
        | (Inr text, w1) \<Rightarrow> (dec text, w1))
   \<and> atomic_yaml_load_ruamel dec p w
     = (case read_atomic p DEFAULT_RETRIES DEFAULT_DELAY False w of
          (Inl e, w1) \<Rightarrow> (Inl e, w1)
        | (Inr text, w1) \<Rightarrow> (dec text, w1))
   \<and> atomic_yaml_dump_ruamel dump_to t p obj w
     = with_AtomicWriter (AtomicWriter_init t p DEFAULT_RETRIES DEFAULT_DELAY False None False)
         (dump_to obj) w
   \<and> (dump_to obj = Block chunks None \<longrightarrow>
        atomic_yaml_dump_ruamel dump_to t p obj w
          = write_atomic t p (concat chunks) DEFAULT_RETRIES DEFAULT_DELAY False None False w)
   \<and> (files w (get_lock_path p) \<noteq> None \<and> alive (inspect_lock p w) \<longrightarrow>
        write_atomic t p c DEFAULT_RETRIES DEFAULT_DELAY False None False w
          = (Inl RuntimeError,
             w\<lparr>now := now w + real (nat DEFAULT_RETRIES) * DEFAULT_DELAY,
               trace := trace w @ replicate (nat DEFAULT_RETRIES) (Slept DEFAULT_DELAY)\<rparr>)
        \<and> atomic_yaml_dump_ruamel dump_to t p obj w
          = write_atomic t p c DEFAULT_RETRIES DEFAULT_DELAY False None False w
        \<and> (enc obj = Inr out \<longrightarrow>
             atomic_json_dump enc t p obj w
               = write_atomic t p c DEFAULT_RETRIES DEFAULT_DELAY False None False w
             \<and> atomic_yaml_dump enc t p obj w
               = write_atomic t p c DEFAULT_RETRIES DEFAULT_DELAY False None False w))
   \<and> (enc obj = Inr out \<longrightarrow>
        (\<exists>w' g. atomic_pickle_write enc t p obj w = (Inr (), w')
           \<and> files w' p = Some g \<and> content g = out
           \<and> files w' (get_lock_path p) = files w (get_lock_path p)
           \<and> now w' = now w))
   \<and> atomic_pickle_read dec p w
     = (case files w p of None \<Rightarrow> Inl FileNotFoundError | Some f \<Rightarrow> dec (content f))"
proof (intro conjI impI)
  show "atomic_yaml_dump_ruamel dump_to t p obj w
     = with_AtomicWriter (AtomicWriter_init t p DEFAULT_RETRIES DEFAULT_DELAY False None False)
         (dump_to obj) w"
    by (simp add: atomic_yaml_dump_ruamel_def)
next
  assume "dump_to obj = Block chunks None"
  then show "atomic_yaml_dump_ruamel dump_to t p obj w
      = write_atomic t p (concat chunks) DEFAULT_RETRIES DEFAULT_DELAY False None False w"
    using with_AtomicWriter_concat [of _ chunks None w]
    by (simp add: atomic_yaml_dump_ruamel_def write_atomic_def)
next
  assume a: "files w (get_lock_path p) \<noteq> None \<and> alive (inspect_lock p w)"
  let ?fail = "(Inl RuntimeError,
       w\<lparr>now := now w + real (nat DEFAULT_RETRIES) * DEFAULT_DELAY,
         trace := trace w @ replicate (nat DEFAULT_RETRIES) (Slept DEFAULT_DELAY)\<rparr>)"
  have s: "\<And>blk. with_AtomicWriter
      (AtomicWriter_init t p DEFAULT_RETRIES DEFAULT_DELAY False None False) blk w = ?fail"
    using a can_sleep_examples(2) by (intro session_held) simp_all
  show wr: "write_atomic t p c DEFAULT_RETRIES DEFAULT_DELAY False None False w = ?fail"
    by (simp only: write_atomic_def s)
  show "atomic_yaml_dump_ruamel dump_to t p obj w
      = write_atomic t p c DEFAULT_RETRIES DEFAULT_DELAY False None False w"
    by (simp only: atomic_yaml_dump_ruamel_def write_atomic_def s)
  assume e: "enc obj = Inr out"
  show "atomic_json_dump enc t p obj w
      = write_atomic t p c DEFAULT_RETRIES DEFAULT_DELAY False None False w"
    by (simp add: atomic_json_dump_def e write_atomic_def s)
  show "atomic_yaml_dump enc t p obj w
      = write_atomic t p c DEFAULT_RETRIES DEFAULT_DELAY False None False w"
    by (simp add: atomic_yaml_dump_def e write_atomic_def s)
next
  assume a: "enc obj = Inr out"
  from atomic_pickle_write_effect [of enc obj out t p w] a obtain w' g where
    r: "atomic_pickle_write enc t p obj w = (Inr (), w')"
      "files w' p = Some g" "content g = out" "now w' = now w" and
    o: "\<forall>q. q \<noteq> p \<and> q \<noteq> get_tmp_path t p \<longrightarrow> files w' q = files w q"
    by blast
  from o have "files w' (get_lock_path p) = files w (get_lock_path p)"
    using lock_path_neq_path [of p] tmp_path_neq_own_lock_path [of t p] by metis
  with r show "\<exists>w' g. atomic_pickle_write enc t p obj w = (Inr (), w')
           \<and> files w' p = Some g \<and> content g = out
           \<and> files w' (get_lock_path p) = files w (get_lock_path p)
           \<and> now w' = now w"
    by blast
next
  show "atomic_pickle_read dec p w
     = (case files w p of None \<Rightarrow> Inl FileNotFoundError | Some f \<Rightarrow> dec (content f))"
    by (rule atomic_pickle_read_direct)
qed (simp_all add: atomic_json_dump_def atomic_yaml_dump_def atomic_json_load_def
    atomic_yaml_load_def atomic_yaml_load_ruamel_def)

lemma held_world_locked:
  "files held_world (get_lock_path ''f'') \<noteq> None" "alive (inspect_lock ''f'' held_world)"
  by (simp_all add: example_lock_path files_example_worlds inspect_held_world)

theorem format_wrappers_witness:
  "files held_world (get_lock_path ''f'') \<noteq> None
   \<and> alive (inspect_lock ''f'' held_world)
   \<and> fst (atomic_json_dump Inr 0 ''f'' ''new'' held_world) = Inl RuntimeError
   \<and> fst (atomic_yaml_dump_ruamel (\<lambda>x. Block [x] None) 0 ''f'' ''new'' held_world)
      = Inl RuntimeError
   \<and> atomic_yaml_dump_ruamel (\<lambda>x. Block [x] None) 0 ''f'' ''new'' free_world
      = write_atomic 0 ''f'' ''new'' DEFAULT_RETRIES DEFAULT_DELAY False None False free_world
   \<and> fst (atomic_pickle_write Inr 0 ''f'' ''new'' held_world) = Inr ()
   \<and> atomic_pickle_read Inr ''f'' held_world = Inr ''old''"
proof -
  note T = format_wrappers [where enc = Inr and obj = "''new''" and out = "''new''"
      and t = 0 and p = "''f''" and w = held_world and c = "''new''"
      and dump_to = "\<lambda>x. Block [x] None" and dec = Inr and chunks = "[''new'']"]
  note U = format_wrappers [where enc = Inr and obj = "''new''" and out = "''new''"
      and t = 0 and p = "''f''" and w = free_world and c = "''new''"
      and dump_to = "\<lambda>x. Block [x] None" and dec = Inr and chunks = "[''new'']"]
  from T held_world_locked
  have "atomic_json_dump Inr 0 ''f'' ''new'' held_world
      = write_atomic 0 ''f'' ''new'' DEFAULT_RETRIES DEFAULT_DELAY False None False held_world"
    and "atomic_yaml_dump_ruamel (\<lambda>x. Block [x] None) 0 ''f'' ''new'' held_world
      = write_atomic 0 ''f'' ''new'' DEFAULT_RETRIES DEFAULT_DELAY False None False held_world"
    and "write_atomic 0 ''f'' ''new'' DEFAULT_RETRIES DEFAULT_DELAY False None False held_world
      = (Inl RuntimeError,
         held_world\<lparr>now := now held_world + real (nat DEFAULT_RETRIES) * DEFAULT_DELAY,
           trace := trace held_world @ replicate (nat DEFAULT_RETRIES) (Slept DEFAULT_DELAY)\<rparr>)"
    by blast+
  then have j: "fst (atomic_json_dump Inr 0 ''f'' ''new'' held_world) = Inl RuntimeError"
    and y: "fst (atomic_yaml_dump_ruamel (\<lambda>x. Block [x] None) 0 ''f'' ''new'' held_world)
      = Inl RuntimeError"
    by simp_all
  from U have "(\<lambda>x. Block [x] None) ''new'' = Block [''new''] None \<longrightarrow>
      atomic_yaml_dump_ruamel (\<lambda>x. Block [x] None) 0 ''f'' ''new'' free_world
      = write_atomic 0 ''f'' (concat [''new'']) DEFAULT_RETRIES DEFAULT_DELAY False None False
          free_world"
    by blast
  then have r: "atomic_yaml_dump_ruamel (\<lambda>x. Block [x] None) 0 ''f'' ''new'' free_world
      = write_atomic 0 ''f'' ''new'' DEFAULT_RETRIES DEFAULT_DELAY False None False free_world"
    by simp
  from T have "\<exists>w'. atomic_pickle_write Inr 0 ''f'' ''new'' held_world = (Inr (), w')"
    by blast
  then have pw: "fst (atomic_pickle_write Inr 0 ''f'' ''new'' held_world) = Inr ()"
    by auto
  from T have "atomic_pickle_read Inr ''f'' held_world
      = (case files held_world ''f'' of None \<Rightarrow> Inl FileNotFoundError
         | Some f \<Rightarrow> Inr (content f))"
    by blast
  then have pr: "atomic_pickle_read Inr ''f'' held_world = Inr ''old''"
    by (simp add: files_example_worlds example_file_def)
  from held_world_locked j y r pw pr show ?thesis
    by (intro conjI)
qed

text \<open>
  C3 as stated fails for the pickle write: the target \<open>f\<close> is locked by the live process
  7; the core write gives up with the RuntimeError, and the pickle write succeeds without
  any wait and replaces the content of the target.
\<close>

theorem format_wrappers_counterexample:
  "fst (write_atomic 0 ''f'' ''new'' DEFAULT_RETRIES DEFAULT_DELAY False None False held_world)
     = Inl RuntimeError
   \<and> fst (atomic_pickle_write Inr 0 ''f'' ''new'' held_world) = Inr ()
   \<and> map_option content (files (snd (atomic_pickle_write Inr 0 ''f'' ''new'' held_world)) ''f'')
     = Some ''new''
   \<and> now (snd (atomic_pickle_write Inr 0 ''f'' ''new'' held_world)) = now held_world"
proof -
  note d = can_sleep_examples(2)
  have a: "fst (write_atomic 0 ''f'' ''new'' DEFAULT_RETRIES DEFAULT_DELAY False None False
      held_world) = Inl RuntimeError"
    by (simp only: write_atomic_held [OF held_world_locked d] fst_conv)
  from atomic_pickle_write_effect [of Inr "''new''" "''new''" 0 "''f''" held_world]
  obtain w' g where
    "atomic_pickle_write Inr 0 ''f'' ''new'' held_world = (Inr (), w')"
    "files w' ''f'' = Some g" "content g = ''new''" "now w' = now held_world"
    by auto
  with a show ?thesis by simp
qed

end
